theory Spec2Isabelle
  imports Main "HOL-Library.AList"
begin

section \<open>Python library functions on strings\<close>

text \<open>
  The program in \<^verbatim>\<open>upload_to_gcs.py\<close> manipulates file names and object keys with
  \<^verbatim>\<open>os.path.splitext\<close>, \<^verbatim>\<open>os.path.join\<close>, \<^verbatim>\<open>os.path.relpath\<close>, \<^verbatim>\<open>str.lower\<close> and
  \<^verbatim>\<open>str.replace\<close>. They are modelled after their POSIX implementations in CPython
  (\<^verbatim>\<open>posixpath.py\<close>, \<^verbatim>\<open>genericpath.py\<close>). A Python string is a \<open>string\<close>; a character
  outside ASCII stands as its UTF-8 bytes, none of which is a separator, a dot or a letter.
\<close>

type_synonym bytes = string

definition startswith :: "string \<Rightarrow> string \<Rightarrow> bool" where
  "startswith s p = (take (length p) s = p)"

definition endswith :: "string \<Rightarrow> string \<Rightarrow> bool" where
  "endswith s p = (length p \<le> length s \<and> drop (length s - length p) s = p)"

text \<open>\<^verbatim>\<open>s.rfind(c)\<close> for a single character: the highest index of \<open>c\<close>, or \<open>-1\<close>.\<close>

fun rfind :: "string \<Rightarrow> char \<Rightarrow> int" where
  "rfind [] c = - 1"
| "rfind (x # xs) c =
     (let r = rfind xs c
      in if 0 \<le> r then r + 1 else if x = c then 0 else - 1)"

text \<open>
  \<^verbatim>\<open>genericpath._splitext(p, '/', None, '.')\<close>: the loop skips the leading dots of the last
  path component and splits at the last dot once it meets another character.
\<close>

function splitext_loop :: "string \<Rightarrow> nat \<Rightarrow> nat \<Rightarrow> string \<times> string" where
  "splitext_loop p filenameIndex dotIndex =
     (if filenameIndex < dotIndex
      then (if take 1 (drop filenameIndex p) \<noteq> ''.''
            then (take dotIndex p, drop dotIndex p)
            else splitext_loop p (filenameIndex + 1) dotIndex)
      else (p, []))"
  by pat_completeness auto
termination
  by (relation "measure (\<lambda>(p, filenameIndex, dotIndex). dotIndex - filenameIndex)") auto

declare splitext_loop.simps [simp del]

definition splitext :: "string \<Rightarrow> string \<times> string" where
  "splitext p =
     (let sepIndex = rfind p CHR ''/'';
          dotIndex = rfind p CHR ''.''
      in if sepIndex < dotIndex
         then splitext_loop p (nat (sepIndex + 1)) (nat dotIndex)
         else (p, []))"

text \<open>
  \<^verbatim>\<open>str.lower\<close>: the ASCII capitals move to their small letters; every other byte stays.
  (No character outside ASCII lowers to a string of the letters \<^verbatim>\<open>z\<close>, \<^verbatim>\<open>i\<close>, \<^verbatim>\<open>p\<close> alone,
  so the comparison with \<^verbatim>\<open>'.zip'\<close> below is decided as in Python.)
\<close>

definition lower_char :: "char \<Rightarrow> char" where
  "lower_char c =
     (case map_of (zip ''ABCDEFGHIJKLMNOPQRSTUVWXYZ'' ''abcdefghijklmnopqrstuvwxyz'') c of
        Some l \<Rightarrow> l
      | None \<Rightarrow> c)"

definition lower :: "string \<Rightarrow> string" where
  "lower s = map lower_char s"

text \<open>\<^verbatim>\<open>posixpath.join(a, *p)\<close>.\<close>

definition join_step :: "string \<Rightarrow> string \<Rightarrow> string" where
  "join_step path b =
     (if startswith b ''/'' \<or> path = [] then b
      else if endswith path ''/'' then path @ b
      else path @ ''/'' @ b)"

definition path_join :: "string \<Rightarrow> string list \<Rightarrow> string" where
  "path_join a p = foldl join_step a p"

text \<open>\<^verbatim>\<open>s.split(c)\<close> for a single character.\<close>

fun split_on :: "char \<Rightarrow> string \<Rightarrow> string list" where
  "split_on c [] = [[]]"
| "split_on c (x # xs) =
     (if x = c then [] # split_on c xs
      else (case split_on c xs of
              [] \<Rightarrow> [[x]]
            | w # ws \<Rightarrow> (x # w) # ws))"

fun commonprefix_len :: "string list \<Rightarrow> string list \<Rightarrow> nat" where
  "commonprefix_len (x # xs) (y # ys) = (if x = y then Suc (commonprefix_len xs ys) else 0)"
| "commonprefix_len xs ys = 0"

text \<open>
  \<^verbatim>\<open>posixpath.relpath(path, start)\<close> for a path that is not empty. Both arguments of the
  program's one call are absolute and normalised (a temporary directory and a file below
  it), so \<^verbatim>\<open>abspath\<close> is the identity on them and is left out.
\<close>

definition relpath :: "string \<Rightarrow> string \<Rightarrow> string" where
  "relpath path start =
     (let start_list = filter (\<lambda>x. x \<noteq> []) (split_on CHR ''/'' start);
          path_list = filter (\<lambda>x. x \<noteq> []) (split_on CHR ''/'' path);
          i = commonprefix_len start_list path_list;
          rel_list = replicate (length start_list - i) ''..'' @ drop i path_list
      in case rel_list of
           [] \<Rightarrow> ''.''
         | r # rs \<Rightarrow> path_join r rs)"

text \<open>
  \<^verbatim>\<open>s.replace(old, new)\<close>: the occurrences of \<open>old\<close> are found from the left and do not
  overlap; an empty \<open>old\<close> matches before every character and at the end.
\<close>

function str_replace :: "string \<Rightarrow> string \<Rightarrow> string \<Rightarrow> string" where
  "str_replace old new [] = (if old = [] then new else [])"
| "str_replace old new (c # cs) =
     (if old = [] then new @ c # str_replace old new cs
      else if startswith (c # cs) old
           then new @ str_replace old new (drop (length old) (c # cs))
           else c # str_replace old new cs)"
  by pat_completeness auto
termination
  by (relation "measure (\<lambda>(old, new, s). length s)") auto


section \<open>The world the program acts on\<close>

text \<open>
  The exceptions that reach the program. Each carries the text that \<^verbatim>\<open>str(e)\<close> gives.
  \<open>RemoteError\<close> is raised by the storage client (existence check, bucket creation, object
  upload), \<open>BadZipFile\<close> by \<^verbatim>\<open>zipfile\<close>, \<open>OSError\<close> by the local file system,
  \<open>KeyError\<close> by a missing dictionary key, \<open>TypeError\<close> by an operation that an
  object does not support, \<open>ValueError\<close> by the construction of the credentials;
  \<open>StopExecution\<close> is what \<^verbatim>\<open>st.stop()\<close> raises.
\<close>

datatype exn =
    RemoteError string
  | BadZipFile string
  | OSError string
  | KeyError string
  | TypeError string
  | ValueError string
  | StopExecution

fun str_of :: "exn \<Rightarrow> string" where
  "str_of (RemoteError m) = m"
| "str_of (BadZipFile m) = m"
| "str_of (OSError m) = m"
| "str_of (KeyError m) = m"
| "str_of (TypeError m) = m"
| "str_of (ValueError m) = m"
| "str_of StopExecution = []"

text \<open>The three operations of the object store that the program uses.\<close>

datatype remote_call =
    Exists string
  | Create string
  | Upload string string bytes

text \<open>The lines the program renders with \<^verbatim>\<open>st.title\<close>, \<^verbatim>\<open>st.success\<close>, \<^verbatim>\<open>st.info\<close>,
  \<^verbatim>\<open>st.write\<close> and \<^verbatim>\<open>st.error\<close>.\<close>

datatype msg =
    StTitle string
  | StSuccess string
  | StInfo string
  | StWrite string
  | StError string

text \<open>A local file or directory; a directory lists its entries in the order of their creation.\<close>

datatype node = File bytes | Dir "(string \<times> node) list"

text \<open>
  \<open>remote\<close> lists the buckets of the object store, each with its objects by key (both
  as association lists, in the order of creation), \<open>calls\<close> is the sequence of
  calls issued to the object store (also the failing ones), \<open>local_tmp\<close> holds the temporary
  files and directories that exist, by absolute path, \<open>tmp_count\<close> counts the temporary
  names handed out, and \<open>messages\<close> are the lines shown to the user.
\<close>

record world =
  remote :: "(string \<times> (string \<times> bytes) list) list"
  calls :: "remote_call list"
  local_tmp :: "(string \<times> node) list"
  tmp_count :: nat
  messages :: "msg list"

text \<open>A value of the credential record: a string, or anything else TOML can hold.\<close>

datatype secret_value = Str string | NonStr

type_synonym credentials_info = "(string \<times> secret_value) list"

text \<open>
  What the program does not decide is a parameter: \<open>fault\<close> says, from the calls issued so
  far, whether the object store fails a call and how; \<open>zip_members\<close> is the archive reader
  (the regular files of an archive, each as the components of its sanitised member name, or
  the error of a corrupt archive); \<open>tmp_name\<close> names the temporary files and directories;
  \<open>from_service_account_info\<close> builds the signed credentials.
\<close>

record 'c env =
  fault :: "remote_call list \<Rightarrow> remote_call \<Rightarrow> exn option"
  zip_members :: "bytes \<Rightarrow> exn + (string list \<times> bytes) list"
  tmp_name :: "nat \<Rightarrow> string"
  from_service_account_info :: "credentials_info \<Rightarrow> exn + 'c"

record uploaded_file =
  name :: string
  getbuffer :: bytes

subsection \<open>Status lines\<close>

definition st :: "msg \<Rightarrow> world \<Rightarrow> world" where
  "st m w = w\<lparr>messages := messages w @ [m]\<rparr>"

text \<open>The four formatted lines of the program; \<open>quoted\<close> sets a text between apostrophes.\<close>

definition quoted :: "string \<Rightarrow> string" where
  "quoted s = [CHR 0x27] @ s @ [CHR 0x27]"

definition created_line :: "string \<Rightarrow> msg" where
  "created_line bucket_name = StSuccess (''Bucket '' @ quoted bucket_name @ '' created.'')"

definition exists_line :: "string \<Rightarrow> msg" where
  "exists_line bucket_name = StInfo (''Bucket '' @ quoted bucket_name @ '' already exists.'')"

definition uploaded_line :: "string \<Rightarrow> string \<Rightarrow> msg" where
  "uploaded_line blob_path bucket_name =
     StWrite (''Uploaded '' @ quoted blob_path @ '' to GCS bucket '' @ quoted bucket_name)"

definition zip_error_line :: "string \<Rightarrow> exn \<Rightarrow> msg" where
  "zip_error_line filename e =
     StError (''Error processing zip file '' @ quoted filename @ '': '' @ str_of e)"

subsection \<open>The object store\<close>

definition bucket_exists :: "'c env \<Rightarrow> string \<Rightarrow> world \<Rightarrow> (exn + bool) \<times> world" where
  "bucket_exists env bucket_name w =
     (let w' = w\<lparr>calls := calls w @ [Exists bucket_name]\<rparr>
      in case fault env (calls w) (Exists bucket_name) of
           Some e \<Rightarrow> (Inl e, w')
         | None \<Rightarrow>
             (case map_of (remote w) bucket_name of
                None \<Rightarrow> (Inr False, w')
              | Some objs \<Rightarrow> (Inr True, w')))"

text \<open>A bucket handle is the name of the bucket. Creating a bucket that exists is a conflict.\<close>

definition create_bucket :: "'c env \<Rightarrow> string \<Rightarrow> world \<Rightarrow> (exn + string) \<times> world" where
  "create_bucket env bucket_name w =
     (let w' = w\<lparr>calls := calls w @ [Create bucket_name]\<rparr>
      in case fault env (calls w) (Create bucket_name) of
           Some e \<Rightarrow> (Inl e, w')
         | None \<Rightarrow>
             (case map_of (remote w) bucket_name of
                Some objs \<Rightarrow> (Inl (RemoteError ''409 Conflict''), w')
              | None \<Rightarrow> (Inr bucket_name, w'\<lparr>remote := remote w @ [(bucket_name, [])]\<rparr>)))"

definition upload_object ::
  "'c env \<Rightarrow> string \<Rightarrow> string \<Rightarrow> bytes \<Rightarrow> world \<Rightarrow> (exn + unit) \<times> world" where
  "upload_object env bucket blob_path data w =
     (let w' = w\<lparr>calls := calls w @ [Upload bucket blob_path data]\<rparr>
      in case fault env (calls w) (Upload bucket blob_path data) of
           Some e \<Rightarrow> (Inl e, w')
         | None \<Rightarrow>
             (case map_of (remote w) bucket of
                None \<Rightarrow> (Inl (RemoteError ''404 Not Found''), w')
              | Some objs \<Rightarrow>
                  (Inr (), w'\<lparr>remote := AList.update bucket (AList.update blob_path data objs) (remote w)\<rparr>)))"

subsection \<open>Temporary storage\<close>

text \<open>
  \<^verbatim>\<open>tempfile\<close> creates a file or directory under a name of its own choice
  (\<^verbatim>\<open>NamedTemporaryFile\<close>, \<^verbatim>\<open>TemporaryDirectory\<close>).
\<close>

definition new_tmp :: "'c env \<Rightarrow> node \<Rightarrow> world \<Rightarrow> string \<times> world" where
  "new_tmp env n w =
     (let p = tmp_name env (tmp_count w)
      in (p, w\<lparr>local_tmp := local_tmp w @ [(p, n)], tmp_count := Suc (tmp_count w)\<rparr>))"

text \<open>\<^verbatim>\<open>os.unlink\<close> of a temporary file, and the removal of a temporary directory with all
  its contents when its \<^verbatim>\<open>with\<close> block is left.\<close>

definition remove_tmp :: "string \<Rightarrow> world \<Rightarrow> world" where
  "remove_tmp p w = w\<lparr>local_tmp := AList.delete p (local_tmp w)\<rparr>"

text \<open>
  A path below a directory is resolved component by component. Only names of entries
  resolve: the model has no \<^verbatim>\<open>.\<close> and \<^verbatim>\<open>..\<close> entries, and the empty component of a doubled
  separator is no name either.
\<close>

primrec lookup_path :: "node \<Rightarrow> string list \<Rightarrow> node option" where
  "lookup_path n [] = Some n"
| "lookup_path n (c # cs) =
     (case n of
        File b \<Rightarrow> None
      | Dir es \<Rightarrow> (case map_of es c of None \<Rightarrow> None | Some n' \<Rightarrow> lookup_path n' cs))"

text \<open>Reading a local file, as \<^verbatim>\<open>open(path, 'rb')\<close> does.\<close>

fun read_local :: "(string \<times> node) list \<Rightarrow> string \<Rightarrow> exn + bytes" where
  "read_local [] path = Inl (OSError ''No such file or directory'')"
| "read_local ((p, n) # rest) path =
     (if path = p
      then (case n of
              Dir es \<Rightarrow> Inl (OSError ''Is a directory'')
            | File b \<Rightarrow> Inr b)
      else if startswith path (p @ ''/'')
      then (case lookup_path n (split_on CHR ''/'' (drop (length p + 1) path)) of
              None \<Rightarrow> Inl (OSError ''No such file or directory'')
            | Some (Dir es) \<Rightarrow> Inl (OSError ''Is a directory'')
            | Some (File b) \<Rightarrow> Inr b)
      else read_local rest path)"

text \<open>
  Writing a file below a directory, as \<^verbatim>\<open>open(path, 'wb')\<close> does: the directories on the
  way must exist, the file is created or truncated.
\<close>

fun write_node :: "string list \<Rightarrow> bytes \<Rightarrow> (string \<times> node) list \<Rightarrow> exn + (string \<times> node) list" where
  "write_node [] data es = Inl (OSError ''Is a directory'')"
| "write_node [f] data es =
     (case map_of es f of
        Some (Dir sub) \<Rightarrow> Inl (OSError ''Is a directory'')
      | _ \<Rightarrow> Inr (AList.update f (File data) es))"
| "write_node (d # f # fs) data es =
     (case map_of es d of
        None \<Rightarrow> Inl (OSError ''No such file or directory'')
      | Some (File b) \<Rightarrow> Inl (OSError ''Not a directory'')
      | Some (Dir sub) \<Rightarrow>
          (case write_node (f # fs) data sub of
             Inl e \<Rightarrow> Inl e
           | Inr sub' \<Rightarrow> Inr (AList.update d (Dir sub') es)))"

text \<open>
  The write of the program goes below a temporary directory. A path that is below none
  (an absolute file name takes \<^verbatim>\<open>os.path.join\<close> there) is outside of what \<open>local_tmp\<close>
  holds and is refused.
\<close>

fun write_local :: "(string \<times> node) list \<Rightarrow> string \<Rightarrow> bytes \<Rightarrow> exn + (string \<times> node) list" where
  "write_local [] path data = Inl (OSError ''Permission denied'')"
| "write_local ((p, n) # rest) path data =
     (if startswith path (p @ ''/'')
      then (case n of
              File b \<Rightarrow> Inl (OSError ''Not a directory'')
            | Dir es \<Rightarrow>
                (case write_node (split_on CHR ''/'' (drop (length p + 1) path)) data es of
                   Inl e \<Rightarrow> Inl e
                 | Inr es' \<Rightarrow> Inr ((p, Dir es') # rest)))
      else (case write_local rest path data of
              Inl e \<Rightarrow> Inl e
            | Inr rest' \<Rightarrow> Inr ((p, n) # rest')))"

text \<open>
  \<^verbatim>\<open>ZipFile._extract_member\<close> for a regular file: the directories above the target are made
  when they are missing, then the target is opened for writing.
\<close>

fun extract_member :: "string list \<Rightarrow> bytes \<Rightarrow> (string \<times> node) list \<Rightarrow> exn + (string \<times> node) list" where
  "extract_member [] data es = Inl (OSError ''Is a directory'')"
| "extract_member [f] data es =
     (case map_of es f of
        Some (Dir sub) \<Rightarrow> Inl (OSError ''Is a directory'')
      | _ \<Rightarrow> Inr (AList.update f (File data) es))"
| "extract_member (d # f # fs) data es =
     (case map_of es d of
        Some (File b) \<Rightarrow> Inl (OSError ''Not a directory'')
      | Some (Dir sub) \<Rightarrow>
          (case extract_member (f # fs) data sub of
             Inl e \<Rightarrow> Inl e
           | Inr sub' \<Rightarrow> Inr (AList.update d (Dir sub') es))
      | None \<Rightarrow>
          (case extract_member (f # fs) data [] of
             Inl e \<Rightarrow> Inl e
           | Inr sub' \<Rightarrow> Inr (es @ [(d, Dir sub')])))"

fun extract_members :: "(string list \<times> bytes) list \<Rightarrow> (string \<times> node) list \<Rightarrow> exn + (string \<times> node) list" where
  "extract_members [] es = Inr es"
| "extract_members ((cs, data) # ms) es =
     (case extract_member cs data es of
        Inl e \<Rightarrow> Inl e
      | Inr es' \<Rightarrow> extract_members ms es')"

text \<open>
  \<^verbatim>\<open>ZipFile(temp_zip_path, 'r').extractall(tmpdirname)\<close>. A failing extraction leaves in the
  directory what it wrote before; the model leaves the directory as it was, since the
  program reads nothing from it after a failure and removes it.
\<close>

definition extractall :: "'c env \<Rightarrow> string \<Rightarrow> string \<Rightarrow> world \<Rightarrow> (exn + unit) \<times> world" where
  "extractall env temp_zip_path tmpdirname w =
     (case read_local (local_tmp w) temp_zip_path of
        Inl e \<Rightarrow> (Inl e, w)
      | Inr content \<Rightarrow>
          (case zip_members env content of
             Inl e \<Rightarrow> (Inl e, w)
           | Inr members \<Rightarrow>
               (case map_of (local_tmp w) tmpdirname of
                  Some (Dir es) \<Rightarrow>
                    (case extract_members members es of
                       Inl e \<Rightarrow> (Inl e, w)
                     | Inr es' \<Rightarrow>
                         (Inr (), w\<lparr>local_tmp := AList.update tmpdirname (Dir es') (local_tmp w)\<rparr>))
                | _ \<Rightarrow> (Inl (OSError ''Not a directory''), w))))"

text \<open>
  \<^verbatim>\<open>os.walk(top)\<close>, top down: a directory yields its own triple of path, subdirectory names
  and file names, then the triples of its subdirectories.
\<close>

fun walk :: "string \<Rightarrow> node \<Rightarrow> (string \<times> string list \<times> string list) list" where
  "walk topdir (File b) = []"
| "walk topdir (Dir es) =
     (topdir, [d. (d, Dir sub) \<leftarrow> es], [f. (f, File b) \<leftarrow> es])
       # concat (map (\<lambda>(d, n). walk (path_join topdir [d]) n) es)"

definition os_walk :: "string \<Rightarrow> world \<Rightarrow> (string \<times> string list \<times> string list) list" where
  "os_walk topdir w =
     (case map_of (local_tmp w) topdir of
        None \<Rightarrow> []
      | Some n \<Rightarrow> walk topdir n)"

section \<open>The program\<close>

text \<open>\<^verbatim>\<open>blob.upload_from_filename(path)\<close>: the local file is read and sent to the store.\<close>

definition upload_from_filename ::
  "'c env \<Rightarrow> string \<Rightarrow> string \<Rightarrow> string \<Rightarrow> world \<Rightarrow> (exn + unit) \<times> world" where
  "upload_from_filename env bucket blob_path local_path w =
     (case read_local (local_tmp w) local_path of
        Inl e \<Rightarrow> (Inl e, w)
      | Inr data \<Rightarrow> upload_object env bucket blob_path data w)"

text \<open>
  Lines 8 to 19. \<^verbatim>\<open>storage.Client(credentials=credentials)\<close> and
  \<^verbatim>\<open>storage_client.bucket(bucket_name)\<close> build local handles and call nothing; the first
  call to the store is \<^verbatim>\<open>bucket.exists()\<close>.
\<close>

definition create_bucket_if_not_exists ::
  "'c env \<Rightarrow> string \<Rightarrow> 'c \<Rightarrow> world \<Rightarrow> (exn + string) \<times> world" where
  "create_bucket_if_not_exists env bucket_name credentials w =
     (case bucket_exists env bucket_name w of
        (Inl e, w1) \<Rightarrow> (Inl e, w1)
      | (Inr present, w1) \<Rightarrow>
          if \<not> present
          then (case create_bucket env bucket_name w1 of
                  (Inl e, w2) \<Rightarrow> (Inl e, w2)
                | (Inr bucket, w2) \<Rightarrow>
                    (Inr bucket, st (created_line bucket_name) w2))
          else (Inr bucket_name, st (exists_line bucket_name) w1))"

text \<open>The inner loop of the walk (lines 44 to 51): the files of one directory.\<close>

fun upload_walk_files ::
  "'c env \<Rightarrow> string \<Rightarrow> string \<Rightarrow> string \<Rightarrow> string \<Rightarrow> string \<Rightarrow> string \<Rightarrow> string list \<Rightarrow> world
     \<Rightarrow> (exn + unit) \<times> world" where
  "upload_walk_files env bucket bucket_name destination_folder filename tmpdirname root [] w =
     (Inr (), w)"
| "upload_walk_files env bucket bucket_name destination_folder filename tmpdirname root (file # files) w =
     (let local_path = path_join root [file];
          relative_path = relpath local_path tmpdirname;
          blob_path = path_join destination_folder [fst (splitext filename), relative_path]
      in case upload_from_filename env bucket blob_path local_path w of
           (Inl e, w1) \<Rightarrow> (Inl e, w1)
         | (Inr u, w1) \<Rightarrow>
             upload_walk_files env bucket bucket_name destination_folder filename tmpdirname root files
               (st (uploaded_line blob_path bucket_name) w1))"

text \<open>The outer loop of the walk (line 43): the directories that \<^verbatim>\<open>os.walk\<close> yields.\<close>

fun upload_walk ::
  "'c env \<Rightarrow> string \<Rightarrow> string \<Rightarrow> string \<Rightarrow> string \<Rightarrow> string
     \<Rightarrow> (string \<times> string list \<times> string list) list \<Rightarrow> world \<Rightarrow> (exn + unit) \<times> world" where
  "upload_walk env bucket bucket_name destination_folder filename tmpdirname [] w = (Inr (), w)"
| "upload_walk env bucket bucket_name destination_folder filename tmpdirname ((root, dirs, files) # rest) w =
     (case upload_walk_files env bucket bucket_name destination_folder filename tmpdirname root files w of
        (Inl e, w1) \<Rightarrow> (Inl e, w1)
      | (Inr u, w1) \<Rightarrow>
          upload_walk env bucket bucket_name destination_folder filename tmpdirname rest w1)"

text \<open>The body of the \<^verbatim>\<open>try\<close> of the zip branch (lines 33 to 51).\<close>

definition zip_try ::
  "'c env \<Rightarrow> string \<Rightarrow> string \<Rightarrow> string \<Rightarrow> uploaded_file \<Rightarrow> string \<Rightarrow> world
     \<Rightarrow> (exn + unit) \<times> world" where
  "zip_try env bucket bucket_name destination_folder uploaded_file tmpdirname w =
     (let filename = name uploaded_file;
          temp_zip_path = path_join tmpdirname [filename]
      in case write_local (local_tmp w) temp_zip_path (getbuffer uploaded_file) of
           Inl e \<Rightarrow> (Inl e, w)
         | Inr fs \<Rightarrow>
             (case extractall env temp_zip_path tmpdirname (w\<lparr>local_tmp := fs\<rparr>) of
                (Inl e, w1) \<Rightarrow> (Inl e, w1)
              | (Inr u, w1) \<Rightarrow>
                  upload_walk env bucket bucket_name destination_folder filename tmpdirname
                    (os_walk tmpdirname w1) w1))"

text \<open>
  The zip branch (lines 31 to 53): the temporary directory is removed when its \<^verbatim>\<open>with\<close> block
  is left, after the handler of \<^verbatim>\<open>except Exception\<close> has reported what the body raised.
\<close>

definition upload_zip ::
  "'c env \<Rightarrow> string \<Rightarrow> string \<Rightarrow> string \<Rightarrow> uploaded_file \<Rightarrow> world \<Rightarrow> (exn + unit) \<times> world" where
  "upload_zip env bucket bucket_name destination_folder uploaded_file w =
     (case new_tmp env (Dir []) w of
        (tmpdirname, w1) \<Rightarrow>
          (case zip_try env bucket bucket_name destination_folder uploaded_file tmpdirname w1 of
             (Inl e, w2) \<Rightarrow>
               (Inr (), remove_tmp tmpdirname (st (zip_error_line (name uploaded_file) e) w2))
           | (Inr u, w2) \<Rightarrow> (Inr (), remove_tmp tmpdirname w2)))"

text \<open>
  The other branch (lines 56 to 63): the file of \<^verbatim>\<open>NamedTemporaryFile(delete=False)\<close> is
  closed, not removed, when its \<^verbatim>\<open>with\<close> block is left; \<^verbatim>\<open>os.unlink\<close> is the last statement
  of the block.
\<close>

definition upload_plain ::
  "'c env \<Rightarrow> string \<Rightarrow> string \<Rightarrow> string \<Rightarrow> uploaded_file \<Rightarrow> world \<Rightarrow> (exn + unit) \<times> world" where
  "upload_plain env bucket bucket_name destination_folder uploaded_file w =
     (case new_tmp env (File []) w of
        (temp_file_name, w1) \<Rightarrow>
          (let w2 = w1\<lparr>local_tmp := AList.update temp_file_name (File (getbuffer uploaded_file)) (local_tmp w1)\<rparr>;
               blob_path = path_join destination_folder [name uploaded_file]
           in case upload_from_filename env bucket blob_path temp_file_name w2 of
                (Inl e, w3) \<Rightarrow> (Inl e, w3)
              | (Inr u, w3) \<Rightarrow>
                  (Inr (), remove_tmp temp_file_name (st (uploaded_line blob_path bucket_name) w3))))"

text \<open>The body of the loop over the uploaded files (lines 28 to 63).\<close>

definition upload_item ::
  "'c env \<Rightarrow> string \<Rightarrow> string \<Rightarrow> string \<Rightarrow> uploaded_file \<Rightarrow> world \<Rightarrow> (exn + unit) \<times> world" where
  "upload_item env bucket bucket_name destination_folder uploaded_file w =
     (let filename = name uploaded_file;
          file_extension = lower (snd (splitext filename))
      in if file_extension = ''.zip''
         then upload_zip env bucket bucket_name destination_folder uploaded_file w
         else upload_plain env bucket bucket_name destination_folder uploaded_file w)"

fun upload_loop ::
  "'c env \<Rightarrow> string \<Rightarrow> string \<Rightarrow> string \<Rightarrow> uploaded_file list \<Rightarrow> world \<Rightarrow> (exn + unit) \<times> world" where
  "upload_loop env bucket bucket_name destination_folder [] w = (Inr (), w)"
| "upload_loop env bucket bucket_name destination_folder (uploaded_file # uploaded_files) w =
     (case upload_item env bucket bucket_name destination_folder uploaded_file w of
        (Inl e, w1) \<Rightarrow> (Inl e, w1)
      | (Inr u, w1) \<Rightarrow> upload_loop env bucket bucket_name destination_folder uploaded_files w1)"

definition upload_files_to_gcs ::
  "'c env \<Rightarrow> string \<Rightarrow> uploaded_file list \<Rightarrow> string \<Rightarrow> 'c \<Rightarrow> world \<Rightarrow> (exn + unit) \<times> world" where
  "upload_files_to_gcs env bucket_name uploaded_files destination_folder credentials w =
     (case create_bucket_if_not_exists env bucket_name credentials w of
        (Inl e, w1) \<Rightarrow> (Inl e, w1)
      | (Inr bucket, w1) \<Rightarrow> upload_loop env bucket bucket_name destination_folder uploaded_files w1)"

text \<open>
  What \<^verbatim>\<open>main\<close> reads: the secrets store, the three fields of the form and whether the
  Upload button was pressed.
\<close>

record form =
  secrets :: "(string \<times> credentials_info) list"
  bucket_name_input :: string
  destination_folder_input :: string
  uploaded_files_input :: "uploaded_file list"
  upload_button :: bool

text \<open>
  \<^verbatim>\<open>st.secrets["service_account"]\<close> is a section of the secrets store: a read-only
  mapping (Streamlit's \<^verbatim>\<open>AttrDict\<close> is a \<^verbatim>\<open>Mapping\<close> and has no \<^verbatim>\<open>__setitem__\<close>). Reading
  a key works as for a dictionary; an item assignment raises \<^verbatim>\<open>TypeError\<close>, whatever the
  key and the value.
\<close>

definition attrdict_setitem :: "credentials_info \<Rightarrow> string \<Rightarrow> secret_value \<Rightarrow> exn + credentials_info" where
  "attrdict_setitem credentials_info key v =
     Inl (TypeError (quoted ''AttrDict'' @ '' object does not support item assignment''))"

text \<open>
  Lines 75 and 76: for a string-valued \<^verbatim>\<open>private_key\<close> the right-hand side is computed (the
  two characters backslash, \<^verbatim>\<open>n\<close> become a line feed), then assigned to the key of the
  section.
\<close>

definition format_private_key :: "credentials_info \<Rightarrow> exn + credentials_info" where
  "format_private_key credentials_info =
     (case map_of credentials_info ''private_key'' of
        None \<Rightarrow> Inl (KeyError ''private_key'')
      | Some NonStr \<Rightarrow> Inr credentials_info
      | Some (Str s) \<Rightarrow>
          attrdict_setitem credentials_info ''private_key''
            (Str (str_replace [CHR 0x5C, CHR ''n''] [CHR 0x0A] s)))"

text \<open>Lines 68 to 78: from the secrets store to the credentials.\<close>

definition main_credentials :: "'c env \<Rightarrow> form \<Rightarrow> world \<Rightarrow> (exn + 'c) \<times> world" where
  "main_credentials env f w =
     (case map_of (secrets f) ''service_account'' of
        None \<Rightarrow> (Inl (KeyError ''service_account''), w)
      | Some credentials_info \<Rightarrow>
          if credentials_info = []
          then (Inl StopExecution, st (StError ''Service account credentials not found in secrets.'') w)
          else (case format_private_key credentials_info of
                  Inl e \<Rightarrow> (Inl e, w)
                | Inr credentials_info' \<Rightarrow>
                    (case from_service_account_info env credentials_info' of
                       Inl e \<Rightarrow> (Inl e, w)
                     | Inr credentials \<Rightarrow> (Inr credentials, w))))"

definition main :: "'c env \<Rightarrow> form \<Rightarrow> world \<Rightarrow> (exn + unit) \<times> world" where
  "main env f w =
     (case main_credentials env f (st (StTitle ''Upload Files to Google Cloud Storage'') w) of
        (Inl e, w1) \<Rightarrow> (Inl e, w1)
      | (Inr credentials, w1) \<Rightarrow>
          (let bucket_name = bucket_name_input f;
               destination_folder = destination_folder_input f;
               uploaded_files = uploaded_files_input f
           in if upload_button f
              then (if bucket_name = []
                    then (Inr (), st (StError ''Please enter a bucket name.'') w1)
                    else if uploaded_files = []
                    then (Inr (), st (StError ''Please select files to upload.'') w1)
                    else (case upload_files_to_gcs env bucket_name uploaded_files destination_folder
                                 credentials w1 of
                            (Inl e, w2) \<Rightarrow> (Inl e, w2)
                          | (Inr u, w2) \<Rightarrow> (Inr (), st (StSuccess ''File upload complete.'') w2)))
              else (Inr (), w1)))"

section \<open>Auxiliary notions\<close>

text \<open>
  The next temporary name is fresh when no temporary file or directory bears it, lies
  above it or lies below it: \<^verbatim>\<open>tempfile\<close> hands out unused names in its own directory.
\<close>

definition fresh_tmp :: "'c env \<Rightarrow> world \<Rightarrow> bool" where
  "fresh_tmp env w =
     (\<forall>(q, n) \<in> set (local_tmp w).
        q \<noteq> tmp_name env (tmp_count w)
        \<and> \<not> startswith (tmp_name env (tmp_count w)) (q @ ''/'')
        \<and> \<not> startswith q (tmp_name env (tmp_count w) @ ''/''))"

text \<open>The files that a walk lists, each with the directory it is in, in the order of the walk.\<close>

definition walk_files :: "(string \<times> string list \<times> string list) list \<Rightarrow> (string \<times> string) list" where
  "walk_files triples = concat (map (\<lambda>(root, dirs, files). map (Pair root) files) triples)"

section \<open>Sample environments\<close>

text \<open>
  Concrete environments and a concrete world, on which the theorems below are instantiated:
  an archive reader that knows two archives, a supply of temporary names, and object stores
  that fail the existence check, the bucket creation or the upload under one key.
\<close>

definition demo_members :: "bytes \<Rightarrow> exn + (string list \<times> bytes) list" where
  "demo_members b =
     (if b = ''PK-one'' then Inr [([''x.txt''], ''hello'')]
      else if b = ''PK-two'' then Inr [([''x.txt''], ''hello''), ([''sub'', ''y.txt''], ''world'')]
      else Inl (BadZipFile ''File is not a zip file''))"

definition demo_env :: "(remote_call list \<Rightarrow> remote_call \<Rightarrow> exn option) \<Rightarrow> unit env" where
  "demo_env flt =
     \<lparr>fault = flt,
      zip_members = demo_members,
      tmp_name = (\<lambda>n. ''/tmp/tmp'' @ replicate n CHR ''x''),
      from_service_account_info = (\<lambda>info. Inr ())\<rparr>"

definition no_fault :: "remote_call list \<Rightarrow> remote_call \<Rightarrow> exn option" where
  "no_fault history c = None"

definition fault_exists :: "remote_call list \<Rightarrow> remote_call \<Rightarrow> exn option" where
  "fault_exists history c = (case c of Exists b \<Rightarrow> Some (RemoteError ''403 Forbidden'') | _ \<Rightarrow> None)"

definition fault_create :: "remote_call list \<Rightarrow> remote_call \<Rightarrow> exn option" where
  "fault_create history c = (case c of Create b \<Rightarrow> Some (RemoteError ''400 Invalid bucket name'') | _ \<Rightarrow> None)"

definition fault_key :: "string \<Rightarrow> remote_call list \<Rightarrow> remote_call \<Rightarrow> exn option" where
  "fault_key k history c =
     (case c of Upload b key d \<Rightarrow> if key = k then Some (RemoteError ''503 Service Unavailable'') else None
      | _ \<Rightarrow> None)"

definition empty_world :: world where
  "empty_world = \<lparr>remote = [], calls = [], local_tmp = [], tmp_count = 0, messages = []\<rparr>"

definition leftover_world :: world where
  "leftover_world =
     \<lparr>remote = [(''b'', [])], calls = [], local_tmp = [(''/tmp/tmpold'', File ''data'')],
      tmp_count = 0, messages = []\<rparr>"

definition bucket_world :: world where
  "bucket_world = \<lparr>remote = [(''b'', [(''old.txt'', ''old'')])], calls = [], local_tmp = [], tmp_count = 0, messages = []\<rparr>"

text \<open>Sample items: a plain file, two archives that \<open>demo_members\<close> can read, and one it cannot.\<close>

definition f_txt :: uploaded_file where
  "f_txt = \<lparr>name = ''f.txt'', getbuffer = ''data''\<rparr>"

definition good_txt :: uploaded_file where
  "good_txt = \<lparr>name = ''good.txt'', getbuffer = ''gg''\<rparr>"

definition one_zip :: uploaded_file where
  "one_zip = \<lparr>name = ''a.zip'', getbuffer = ''PK-one''\<rparr>"

definition two_zip :: uploaded_file where
  "two_zip = \<lparr>name = ''a.zip'', getbuffer = ''PK-two''\<rparr>"

definition corrupt_zip :: uploaded_file where
  "corrupt_zip = \<lparr>name = ''corrupt.zip'', getbuffer = ''garbage''\<rparr>"

text \<open>
  The rewriting of the private key in the words of the specification: every literal
  two-character sequence backslash, \<^verbatim>\<open>n\<close> becomes a line break; the text is read from the
  left and everything else is kept.
\<close>

fun unescape_newlines :: "string \<Rightarrow> string" where
  "unescape_newlines (a # b # cs) =
     (if a = CHR 0x5C \<and> b = CHR ''n'' then CHR 0x0A # unescape_newlines cs
      else a # unescape_newlines (b # cs))"
| "unescape_newlines cs = cs"

text \<open>A form with a credential record whose key holds two escaped line breaks.\<close>

definition demo_info :: credentials_info where
  "demo_info =
     [(''type'', Str ''service_account''),
      (''private_key'', Str (''-----BEGIN'' @ [CHR 0x5C, CHR ''n''] @ ''MIIE'' @ [CHR 0x5C, CHR ''n''] @ ''-----END'')),
      (''client_email'', Str ''uploader@example.iam.gserviceaccount.com'')]"

definition demo_form :: "string \<Rightarrow> uploaded_file list \<Rightarrow> form" where
  "demo_form bucket_name uploaded_files =
     \<lparr>secrets = [(''service_account'', demo_info)],
      bucket_name_input = bucket_name,
      destination_folder_input = ''d'',
      uploaded_files_input = uploaded_files,
      upload_button = True\<rparr>"



text \<open>A key has a doubled separator when two of its neighbouring characters are separators.\<close>

fun doubled_sep :: "string \<Rightarrow> bool" where
  "doubled_sep (a # b # cs) = ((a = CHR ''/'' \<and> b = CHR ''/'') \<or> doubled_sep (b # cs))"
| "doubled_sep cs = False"

section \<open>Properties\<close>

subsection \<open>Failure of the bucket ensurer\<close>

text \<open>
  Claim C7. If the existence check of the bucket fails, or the bucket is absent and its
  creation fails, \<open>upload_files_to_gcs\<close> raises that error and nothing but the call log
  has changed: no item was processed, no object was uploaded, no temporary file was made.
\<close>

theorem C7_bucket_error_aborts:
  "(fault env (calls w) (Exists bucket_name) = Some e \<longrightarrow>
      upload_files_to_gcs env bucket_name uploaded_files destination_folder credentials w
        = (Inl e, w\<lparr>calls := calls w @ [Exists bucket_name]\<rparr>))
   \<and> (fault env (calls w) (Exists bucket_name) = None \<and> map_of (remote w) bucket_name = None \<and>
      fault env (calls w @ [Exists bucket_name]) (Create bucket_name) = Some e \<longrightarrow>
      upload_files_to_gcs env bucket_name uploaded_files destination_folder credentials w
        = (Inl e, w\<lparr>calls := calls w @ [Exists bucket_name, Create bucket_name]\<rparr>))"
  by (simp add: upload_files_to_gcs_def create_bucket_if_not_exists_def bucket_exists_def
        create_bucket_def)

text \<open>The theorem at a store that refuses the existence check, and at one that refuses the creation.\<close>

theorem C7_bucket_error_aborts_witness:
  "fault (demo_env fault_exists) (calls empty_world) (Exists ''b'') = Some (RemoteError ''403 Forbidden'')
   \<and> upload_files_to_gcs (demo_env fault_exists) ''b'' [\<lparr>name = ''f.txt'', getbuffer = ''data''\<rparr>] ''d'' () empty_world
        = (Inl (RemoteError ''403 Forbidden''), empty_world\<lparr>calls := [Exists ''b'']\<rparr>)
   \<and> fault (demo_env fault_create) (calls empty_world) (Exists ''b'') = None
   \<and> map_of (remote empty_world) ''b'' = None
   \<and> fault (demo_env fault_create) (calls empty_world @ [Exists ''b'']) (Create ''b'')
        = Some (RemoteError ''400 Invalid bucket name'')
   \<and> upload_files_to_gcs (demo_env fault_create) ''b'' [\<lparr>name = ''f.txt'', getbuffer = ''data''\<rparr>] ''d'' () empty_world
        = (Inl (RemoteError ''400 Invalid bucket name''), empty_world\<lparr>calls := [Exists ''b'', Create ''b'']\<rparr>)"
proof -
  have h1: "fault (demo_env fault_exists) (calls empty_world) (Exists ''b'') = Some (RemoteError ''403 Forbidden'')"
    by (simp add: demo_env_def fault_exists_def)
  have h2: "fault (demo_env fault_create) (calls empty_world) (Exists ''b'') = None
      \<and> map_of (remote empty_world) ''b'' = None
      \<and> fault (demo_env fault_create) (calls empty_world @ [Exists ''b'']) (Create ''b'')
        = Some (RemoteError ''400 Invalid bucket name'')"
    by (simp add: demo_env_def fault_create_def empty_world_def)
  have c: "calls empty_world = []" by (simp add: empty_world_def)
  show ?thesis
    using h1 h2
      C7_bucket_error_aborts [of "demo_env fault_exists" empty_world "''b''" "RemoteError ''403 Forbidden''"
        "[\<lparr>name = ''f.txt'', getbuffer = ''data''\<rparr>]" "''d''" "()"]
      C7_bucket_error_aborts [of "demo_env fault_create" empty_world "''b''" "RemoteError ''400 Invalid bucket name''"
        "[\<lparr>name = ''f.txt'', getbuffer = ''data''\<rparr>]" "''d''" "()"]
    by (simp add: c)
qed

subsection \<open>The bucket ensurer\<close>

text \<open>
  Claim C5. When the existence check answers, \<open>create_bucket_if_not_exists\<close> issues a
  create call exactly when the bucket is absent. If it is absent and the creation succeeds,
  the store has gained that one bucket, empty, and the handle returned is the name given;
  if it is present, the only call is the existence check and the handle is the name given.
\<close>

theorem C5_create_iff_absent:
  assumes "fault env (calls w) (Exists bucket_name) = None"
  shows "calls (snd (create_bucket_if_not_exists env bucket_name credentials w))
           = calls w @ (if map_of (remote w) bucket_name = None
                        then [Exists bucket_name, Create bucket_name] else [Exists bucket_name])
       \<and> (map_of (remote w) bucket_name = None
            \<and> fault env (calls w @ [Exists bucket_name]) (Create bucket_name) = None \<longrightarrow>
          create_bucket_if_not_exists env bucket_name credentials w
            = (Inr bucket_name,
               w\<lparr>remote := remote w @ [(bucket_name, [])],
                 calls := calls w @ [Exists bucket_name, Create bucket_name],
                 messages := messages w @ [created_line bucket_name]\<rparr>))
       \<and> (map_of (remote w) bucket_name \<noteq> None \<longrightarrow>
          create_bucket_if_not_exists env bucket_name credentials w
            = (Inr bucket_name,
               w\<lparr>calls := calls w @ [Exists bucket_name],
                 messages := messages w @ [exists_line bucket_name]\<rparr>))"
  using assms
  by (auto simp add: create_bucket_if_not_exists_def bucket_exists_def create_bucket_def st_def
      Let_def split: option.splits)

text \<open>The theorem at a store without the bucket and at a store with it.\<close>

theorem C5_create_iff_absent_witness:
  "fault (demo_env no_fault) (calls empty_world) (Exists ''b'') = None
   \<and> map_of (remote empty_world) ''b'' = None
   \<and> fault (demo_env no_fault) (calls empty_world @ [Exists ''b'']) (Create ''b'') = None
   \<and> create_bucket_if_not_exists (demo_env no_fault) ''b'' () empty_world
        = (Inr ''b'',
           empty_world\<lparr>remote := remote empty_world @ [(''b'', [])],
             calls := calls empty_world @ [Exists ''b'', Create ''b''],
             messages := messages empty_world @ [created_line ''b'']\<rparr>)
   \<and> fault (demo_env no_fault) (calls bucket_world) (Exists ''b'') = None
   \<and> map_of (remote bucket_world) ''b'' \<noteq> None
   \<and> create_bucket_if_not_exists (demo_env no_fault) ''b'' () bucket_world
        = (Inr ''b'',
           bucket_world\<lparr>calls := calls bucket_world @ [Exists ''b''],
             messages := messages bucket_world @ [exists_line ''b'']\<rparr>)
   \<and> calls (snd (create_bucket_if_not_exists (demo_env no_fault) ''b'' () bucket_world)) = [Exists ''b'']"
proof -
  have f: "\<And>h c. fault (demo_env no_fault) h c = None"
    by (simp add: demo_env_def no_fault_def)
  have a: "map_of (remote empty_world) ''b'' = None"
    by (simp add: empty_world_def)
  have p: "map_of (remote bucket_world) ''b'' \<noteq> None" "calls bucket_world = []"
    by (simp_all add: bucket_world_def)
  show ?thesis
    using f a p
      C5_create_iff_absent [of "demo_env no_fault" empty_world "''b''" "()"]
      C5_create_iff_absent [of "demo_env no_fault" bucket_world "''b''" "()"]
    by simp
qed

subsection \<open>Temporary files of the plain branch\<close>

lemma update_fresh_snoc:
  "p \<notin> fst ` set fs \<Longrightarrow> AList.update p v (fs @ [(p, x)]) = fs @ [(p, v)]"
  by (induction fs) auto

lemma delete_fresh_snoc:
  "p \<notin> fst ` set fs \<Longrightarrow> AList.delete p (fs @ [(p, x)]) = fs"
  by (induction fs) auto

lemma read_local_fresh_snoc:
  "\<forall>(q, n) \<in> set fs. q \<noteq> p \<and> \<not> startswith p (q @ ''/'') \<Longrightarrow>
     read_local (fs @ [(p, File d)]) p = Inr d"
  by (induction fs) auto

lemma fresh_tmp_notin:
  "fresh_tmp env w \<Longrightarrow> tmp_name env (tmp_count w) \<notin> fst ` set (local_tmp w)"
  by (auto simp add: fresh_tmp_def)

lemma upload_plain_unfold:
  assumes "fresh_tmp env w"
  shows "upload_plain env bucket bucket_name destination_folder f w =
     (case upload_object env bucket (path_join destination_folder [name f]) (getbuffer f)
             (w\<lparr>tmp_count := Suc (tmp_count w),
                local_tmp := local_tmp w @ [(tmp_name env (tmp_count w), File (getbuffer f))]\<rparr>) of
        (Inl e, w3) \<Rightarrow> (Inl e, w3)
      | (Inr u, w3) \<Rightarrow>
          (Inr (), remove_tmp (tmp_name env (tmp_count w))
                     (st (uploaded_line (path_join destination_folder [name f]) bucket_name) w3)))"
proof -
  have n: "tmp_name env (tmp_count w) \<notin> fst ` set (local_tmp w)"
    using assms by (rule fresh_tmp_notin)
  have r: "read_local (local_tmp w @ [(tmp_name env (tmp_count w), File (getbuffer f))])
             (tmp_name env (tmp_count w)) = Inr (getbuffer f)"
    using assms by (intro read_local_fresh_snoc) (auto simp add: fresh_tmp_def)
  show ?thesis
    by (simp add: upload_plain_def new_tmp_def Let_def upload_from_filename_def
        update_fresh_snoc [OF n] r)
qed

lemma path_join_two:
  "destination_folder \<noteq> [] \<Longrightarrow> \<not> endswith destination_folder ''/'' \<Longrightarrow> \<not> startswith b ''/'' \<Longrightarrow>
     path_join destination_folder [b] = destination_folder @ ''/'' @ b"
  by (simp add: path_join_def join_step_def)

lemma upload_plain_result:
  assumes "fresh_tmp env w"
  shows "upload_plain env bucket bucket_name destination_folder f w =
     (case fault env (calls w) (Upload bucket (path_join destination_folder [name f]) (getbuffer f)) of
        Some e \<Rightarrow>
          (Inl e,
           w\<lparr>calls := calls w @ [Upload bucket (path_join destination_folder [name f]) (getbuffer f)],
             local_tmp := local_tmp w @ [(tmp_name env (tmp_count w), File (getbuffer f))],
             tmp_count := Suc (tmp_count w)\<rparr>)
      | None \<Rightarrow>
          (case map_of (remote w) bucket of
             None \<Rightarrow>
               (Inl (RemoteError ''404 Not Found''),
                w\<lparr>calls := calls w @ [Upload bucket (path_join destination_folder [name f]) (getbuffer f)],
                  local_tmp := local_tmp w @ [(tmp_name env (tmp_count w), File (getbuffer f))],
                  tmp_count := Suc (tmp_count w)\<rparr>)
           | Some objs \<Rightarrow>
               (Inr (),
                w\<lparr>remote := AList.update bucket
                               (AList.update (path_join destination_folder [name f]) (getbuffer f) objs)
                               (remote w),
                  calls := calls w @ [Upload bucket (path_join destination_folder [name f]) (getbuffer f)],
                  tmp_count := Suc (tmp_count w),
                  messages := messages w @ [uploaded_line (path_join destination_folder [name f]) bucket_name]\<rparr>)))"
  using fresh_tmp_notin [OF assms]
  by (simp add: upload_plain_unfold [OF assms] upload_object_def Let_def st_def remove_tmp_def
      delete_fresh_snoc split: option.splits)

subsection \<open>An item that is no zip archive\<close>

text \<open>
  Claim C6. An item whose extension is not \<^verbatim>\<open>.zip\<close>, processed with success, has issued one
  upload call and has written one object, under the key \<^verbatim>\<open>os.path.join(destination_folder,
  filename)\<close> and with the bytes of the item; nothing else in the store has changed and the
  temporary file is gone. The key is the destination folder, a separator and the file name
  when the folder is not empty and does not end in a separator.
\<close>

theorem C6_plain_item_one_object:
  assumes "lower (snd (splitext (name f))) \<noteq> ''.zip''"
    and "fresh_tmp env w"
    and "fst (upload_item env bucket bucket_name destination_folder f w) = Inr ()"
  shows "(\<exists>objs. map_of (remote w) bucket = Some objs \<and>
            upload_item env bucket bucket_name destination_folder f w =
              (Inr (),
               w\<lparr>remote := AList.update bucket
                              (AList.update (path_join destination_folder [name f]) (getbuffer f) objs)
                              (remote w),
                 calls := calls w @ [Upload bucket (path_join destination_folder [name f]) (getbuffer f)],
                 tmp_count := Suc (tmp_count w),
                 messages := messages w @ [uploaded_line (path_join destination_folder [name f]) bucket_name]\<rparr>))
       \<and> (destination_folder \<noteq> [] \<and> \<not> endswith destination_folder ''/'' \<and> \<not> startswith (name f) ''/'' \<longrightarrow>
            path_join destination_folder [name f] = destination_folder @ ''/'' @ name f)"
proof -
  have p: "upload_item env bucket bucket_name destination_folder f w
             = upload_plain env bucket bucket_name destination_folder f w"
    using assms(1) by (simp add: upload_item_def)
  show ?thesis
    using assms(3) unfolding p upload_plain_result [OF assms(2)]
    by (auto split: option.splits simp add: path_join_two)
qed

text \<open>The theorem at the item \<^verbatim>\<open>f.txt\<close>, sent to the folder \<^verbatim>\<open>d\<close> of an existing bucket.\<close>

theorem C6_plain_item_one_object_witness:
  "lower (snd (splitext (name \<lparr>name = ''f.txt'', getbuffer = ''data''\<rparr>))) \<noteq> ''.zip''
   \<and> fresh_tmp (demo_env no_fault) bucket_world
   \<and> fst (upload_item (demo_env no_fault) ''b'' ''b'' ''d'' \<lparr>name = ''f.txt'', getbuffer = ''data''\<rparr> bucket_world) = Inr ()
   \<and> upload_item (demo_env no_fault) ''b'' ''b'' ''d'' \<lparr>name = ''f.txt'', getbuffer = ''data''\<rparr> bucket_world
       = (Inr (),
          bucket_world\<lparr>remote := [(''b'', [(''old.txt'', ''old''), (''d/f.txt'', ''data'')])],
            calls := [Upload ''b'' ''d/f.txt'' ''data''],
            tmp_count := 1,
            messages := [uploaded_line ''d/f.txt'' ''b'']\<rparr>)"
proof -
  have h1: "lower (snd (splitext (name \<lparr>name = ''f.txt'', getbuffer = ''data''\<rparr>))) \<noteq> ''.zip''"
    by code_simp
  have h2: "fresh_tmp (demo_env no_fault) bucket_world"
    by (simp add: fresh_tmp_def bucket_world_def)
  have h3: "fst (upload_item (demo_env no_fault) ''b'' ''b'' ''d'' \<lparr>name = ''f.txt'', getbuffer = ''data''\<rparr> bucket_world) = Inr ()"
    by code_simp
  have k: "path_join ''d'' [''f.txt''] = ''d/f.txt''"
    by code_simp
  have w: "remote bucket_world = [(''b'', [(''old.txt'', ''old'')])]" "calls bucket_world = []"
    "tmp_count bucket_world = 0" "messages bucket_world = []"
    by (simp_all add: bucket_world_def)
  show ?thesis
    using h1 h2 h3 C6_plain_item_one_object [OF h1 h2 h3]
    by (simp add: k w)
qed

subsection \<open>The temporary file of a failed upload\<close>

text \<open>
  Claim C2 asks that no temporary file outlives the invocation, also when the upload of an
  item that is no archive raises. Here the store fails the upload of \<^verbatim>\<open>d/f.txt\<close>: the
  invocation ends with that error and the temporary file of the item, with its bytes, is
  still there.
\<close>

theorem C2_temporary_file_left_behind:
  "upload_files_to_gcs (demo_env (fault_key ''d/f.txt'')) ''b''
      [\<lparr>name = ''f.txt'', getbuffer = ''data''\<rparr>] ''d'' () empty_world
   = (Inl (RemoteError ''503 Service Unavailable''),
      \<lparr>remote = [(''b'', [])],
       calls = [Exists ''b'', Create ''b'', Upload ''b'' ''d/f.txt'' ''data''],
       local_tmp = [(''/tmp/tmp'', File ''data'')],
       tmp_count = 1,
       messages = [created_line ''b'']\<rparr>)"
  by code_simp

subsection \<open>Upload failures\<close>

lemma upload_walk_files_abort:
  assumes "upload_walk_files env bucket bucket_name destination_folder filename tmpdirname root pre w
             = (Inr (), w1)"
    and "upload_from_filename env bucket
           (path_join destination_folder
              [fst (splitext filename), relpath (path_join root [file]) tmpdirname])
           (path_join root [file]) w1 = (Inl e, w2)"
  shows "upload_walk_files env bucket bucket_name destination_folder filename tmpdirname root
           (pre @ file # post) w = (Inl e, w2)"
  using assms
proof (induction pre arbitrary: w)
  case Nil
  then show ?case by (simp add: Let_def)
next
  case (Cons a pre)
  then show ?case
    by (auto simp add: Let_def split: prod.splits sum.splits)
qed

lemma upload_walk_abort:
  assumes "upload_walk env bucket bucket_name destination_folder filename tmpdirname tpre w = (Inr (), w1)"
    and "upload_walk_files env bucket bucket_name destination_folder filename tmpdirname root files w1
           = (Inl e, w2)"
  shows "upload_walk env bucket bucket_name destination_folder filename tmpdirname
           (tpre @ (root, dirs, files) # tpost) w = (Inl e, w2)"
  using assms
proof (induction tpre arbitrary: w)
  case Nil
  then show ?case by simp
next
  case (Cons t tpre)
  then show ?case
    by (cases t) (auto split: prod.splits sum.splits)
qed

lemma upload_zip_catches:
  assumes "new_tmp env (Dir []) w = (tmpdirname, w0)"
    and "zip_try env bucket bucket_name destination_folder f tmpdirname w0 = (Inl e, w1)"
  shows "upload_zip env bucket bucket_name destination_folder f w =
           (Inr (),
            remove_tmp tmpdirname
              (st (zip_error_line (name f) e) w1))"
  using assms by (simp add: upload_zip_def)

lemma upload_zip_returns:
  "fst (upload_zip env bucket bucket_name destination_folder f w) = Inr ()"
  by (simp add: upload_zip_def split: prod.splits sum.splits)

lemma zip_upload_failure_caught:
  assumes is_zip: "lower (snd (splitext (name f))) = ''.zip''"
    and made: "new_tmp env (Dir []) w = (tmpdirname, wa)"
    and saved: "write_local (local_tmp wa) (path_join tmpdirname [name f]) (getbuffer f) = Inr fs"
    and extracted: "extractall env (path_join tmpdirname [name f]) tmpdirname (wa\<lparr>local_tmp := fs\<rparr>)
                    = (Inr (), wb)"
    and walked: "os_walk tmpdirname wb = tpre @ (root, dirs, pre @ file # post) # tpost"
    and before_dirs: "upload_walk env bucket bucket_name destination_folder (name f) tmpdirname tpre wb
                        = (Inr (), wc)"
    and before_files: "upload_walk_files env bucket bucket_name destination_folder (name f) tmpdirname
                         root pre wc = (Inr (), wd)"
    and local_file: "read_local (local_tmp wd) (path_join root [file]) = Inr data"
    and failure: "fault env (calls wd)
                    (Upload bucket
                       (path_join destination_folder
                          [fst (splitext (name f)), relpath (path_join root [file]) tmpdirname])
                       data) = Some e"
  shows "upload_loop env bucket bucket_name destination_folder (f # rest) w =
           upload_loop env bucket bucket_name destination_folder rest
             (remove_tmp tmpdirname
                (st (zip_error_line (name f) e)
                   (wd\<lparr>calls := calls wd @
                        [Upload bucket
                           (path_join destination_folder
                              [fst (splitext (name f)), relpath (path_join root [file]) tmpdirname])
                           data]\<rparr>)))"
proof -
  let ?key = "path_join destination_folder
                [fst (splitext (name f)), relpath (path_join root [file]) tmpdirname]"
  have "upload_from_filename env bucket ?key (path_join root [file]) wd
          = (Inl e, wd\<lparr>calls := calls wd @ [Upload bucket ?key data]\<rparr>)"
    using local_file failure by (simp add: upload_from_filename_def upload_object_def Let_def)
  from upload_walk_abort [OF before_dirs upload_walk_files_abort [OF before_files this]]
  have "upload_walk env bucket bucket_name destination_folder (name f) tmpdirname
          (os_walk tmpdirname wb) wb = (Inl e, wd\<lparr>calls := calls wd @ [Upload bucket ?key data]\<rparr>)"
    unfolding walked .
  then have "zip_try env bucket bucket_name destination_folder f tmpdirname wa
               = (Inl e, wd\<lparr>calls := calls wd @ [Upload bucket ?key data]\<rparr>)"
    using saved extracted by (simp add: zip_try_def Let_def)
  from upload_zip_catches [OF made this] show ?thesis
    using is_zip by (simp add: upload_item_def)
qed

lemma plain_upload_failure_propagates:
  assumes "lower (snd (splitext (name f))) \<noteq> ''.zip''"
    and "fresh_tmp env w"
    and "fault env (calls w) (Upload bucket (path_join destination_folder [name f]) (getbuffer f)) = Some e"
  shows "upload_loop env bucket bucket_name destination_folder (f # rest) w =
           (Inl e,
            w\<lparr>calls := calls w @ [Upload bucket (path_join destination_folder [name f]) (getbuffer f)],
              local_tmp := local_tmp w @ [(tmp_name env (tmp_count w), File (getbuffer f))],
              tmp_count := Suc (tmp_count w)\<rparr>)"
  using assms(1,3) by (simp add: upload_item_def upload_plain_result [OF assms(2)])

lemma zip_item_never_raises:
  "lower (snd (splitext (name f))) = ''.zip'' \<Longrightarrow>
     fst (upload_item env bucket bucket_name destination_folder f w) = Inr ()"
  by (simp add: upload_item_def upload_zip_returns)

text \<open>
  Claim C3, as the code has it. The failure of an upload is raised by the object store.
  \<^item> On an item that is no archive it leaves the loop at once: the result is the error, the
    failing call is the last call, and the items after it are not looked at.
  \<^item> A zip item never raises: whatever happens in its \<^verbatim>\<open>try\<close> block is caught.
  \<^item> Inside the walk of a zip item (the archive saved and extracted, the directories \<open>tpre\<close> and
    the files \<open>pre\<close> uploaded), a failing upload of \<open>failing\<close> ends the walk: the files \<open>post\<close> and
    the directories \<open>tpost\<close> are not uploaded, the error is reported for the item, the temporary
    directory is removed, and the loop goes on with the next item.
\<close>

theorem C3_upload_failure_by_branch:
  "(lower (snd (splitext (name f))) \<noteq> ''.zip'' \<and> fresh_tmp env w \<and>
    fault env (calls w) (Upload bucket (path_join destination_folder [name f]) (getbuffer f)) = Some e \<longrightarrow>
      upload_loop env bucket bucket_name destination_folder (f # rest) w =
        (Inl e,
         w\<lparr>calls := calls w @ [Upload bucket (path_join destination_folder [name f]) (getbuffer f)],
           local_tmp := local_tmp w @ [(tmp_name env (tmp_count w), File (getbuffer f))],
           tmp_count := Suc (tmp_count w)\<rparr>))
   \<and> (lower (snd (splitext (name z))) = ''.zip'' \<longrightarrow>
        fst (upload_item env bucket bucket_name destination_folder z v) = Inr ())
   \<and> (lower (snd (splitext (name z))) = ''.zip'' \<and>
      new_tmp env (Dir []) v = (tmpdirname, wa) \<and>
      write_local (local_tmp wa) (path_join tmpdirname [name z]) (getbuffer z) = Inr fs \<and>
      extractall env (path_join tmpdirname [name z]) tmpdirname (wa\<lparr>local_tmp := fs\<rparr>) = (Inr (), wb) \<and>
      os_walk tmpdirname wb = tpre @ (root, dirs, pre @ failing # post) # tpost \<and>
      upload_walk env bucket bucket_name destination_folder (name z) tmpdirname tpre wb = (Inr (), wc) \<and>
      upload_walk_files env bucket bucket_name destination_folder (name z) tmpdirname root pre wc
        = (Inr (), wd) \<and>
      read_local (local_tmp wd) (path_join root [failing]) = Inr data \<and>
      fault env (calls wd)
        (Upload bucket
           (path_join destination_folder
              [fst (splitext (name z)), relpath (path_join root [failing]) tmpdirname])
           data) = Some e' \<longrightarrow>
        upload_loop env bucket bucket_name destination_folder (z # rest') v =
          upload_loop env bucket bucket_name destination_folder rest'
            (remove_tmp tmpdirname
               (st (zip_error_line (name z) e')
                  (wd\<lparr>calls := calls wd @
                       [Upload bucket
                          (path_join destination_folder
                             [fst (splitext (name z)), relpath (path_join root [failing]) tmpdirname])
                          data]\<rparr>))))"
  using plain_upload_failure_propagates [of f env w bucket destination_folder e bucket_name rest]
    zip_item_never_raises [of z env bucket bucket_name destination_folder v]
    zip_upload_failure_caught [of z env v tmpdirname wa fs wb tpre root dirs pre failing post tpost
      bucket bucket_name destination_folder wc wd data e' rest']
  by blast

text \<open>
  The theorem at the plain item \<^verbatim>\<open>f.txt\<close> with a store that fails its upload, and at the
  archive \<^verbatim>\<open>a.zip\<close> of two members with a store that fails the upload of the member
  \<^verbatim>\<open>x.txt\<close>: the archive itself was uploaded before, the member \<^verbatim>\<open>sub/y.txt\<close> is not
  uploaded, and \<^verbatim>\<open>good.txt\<close> is processed next.
\<close>

theorem C3_upload_failure_by_branch_witness:
  "lower (snd (splitext (name f_txt))) \<noteq> ''.zip''
   \<and> fresh_tmp (demo_env (fault_key ''d/f.txt'')) bucket_world
   \<and> fault (demo_env (fault_key ''d/f.txt'')) (calls bucket_world)
         (Upload ''b'' (path_join ''d'' [name f_txt]) (getbuffer f_txt))
       = Some (RemoteError ''503 Service Unavailable'')
   \<and> upload_loop (demo_env (fault_key ''d/f.txt'')) ''b'' ''b'' ''d'' [f_txt, good_txt] bucket_world
       = (Inl (RemoteError ''503 Service Unavailable''),
          bucket_world\<lparr>calls := [Upload ''b'' ''d/f.txt'' ''data''],
            local_tmp := [(''/tmp/tmp'', File ''data'')],
            tmp_count := 1\<rparr>)
   \<and> lower (snd (splitext (name two_zip))) = ''.zip''
   \<and> fst (upload_item (demo_env (fault_key ''d/a/x.txt'')) ''b'' ''b'' ''d'' two_zip bucket_world) = Inr ()
   \<and> fault (demo_env (fault_key ''d/a/x.txt'')) [Upload ''b'' ''d/a/a.zip'' ''PK-two'']
         (Upload ''b'' ''d/a/x.txt'' ''hello'')
       = Some (RemoteError ''503 Service Unavailable'')
   \<and> upload_loop (demo_env (fault_key ''d/a/x.txt'')) ''b'' ''b'' ''d'' [two_zip, good_txt] bucket_world
       = upload_loop (demo_env (fault_key ''d/a/x.txt'')) ''b'' ''b'' ''d'' [good_txt]
           \<lparr>remote = [(''b'', [(''old.txt'', ''old''), (''d/a/a.zip'', ''PK-two'')])],
            calls = [Upload ''b'' ''d/a/a.zip'' ''PK-two'', Upload ''b'' ''d/a/x.txt'' ''hello''],
            local_tmp = [],
            tmp_count = 1,
            messages = [uploaded_line ''d/a/a.zip'' ''b'',
                        zip_error_line ''a.zip'' (RemoteError ''503 Service Unavailable'')]\<rparr>"
proof -
  let ?P = "demo_env (fault_key ''d/f.txt'')"
  let ?E = "demo_env (fault_key ''d/a/x.txt'')"
  let ?err = "RemoteError ''503 Service Unavailable''"
  let ?wa = "bucket_world\<lparr>local_tmp := [(''/tmp/tmp'', Dir [])], tmp_count := 1\<rparr>"
  let ?fs = "[(''/tmp/tmp'', Dir [(''a.zip'', File ''PK-two'')])]"
  let ?wb = "bucket_world\<lparr>local_tmp :=
               [(''/tmp/tmp'', Dir [(''a.zip'', File ''PK-two''), (''x.txt'', File ''hello''),
                                   (''sub'', Dir [(''y.txt'', File ''world'')])])],
             tmp_count := 1\<rparr>"
  let ?wd = "?wb\<lparr>remote := [(''b'', [(''old.txt'', ''old''), (''d/a/a.zip'', ''PK-two'')])],
               calls := [Upload ''b'' ''d/a/a.zip'' ''PK-two''],
               messages := [uploaded_line ''d/a/a.zip'' ''b'']\<rparr>"
  note T = C3_upload_failure_by_branch [where f = f_txt and env = ?P and w = bucket_world
      and bucket = "''b''" and bucket_name = "''b''" and destination_folder = "''d''" and e = ?err
      and rest = "[good_txt]" and z = f_txt and v = bucket_world]
  note U = C3_upload_failure_by_branch [where env = ?E and bucket = "''b''" and bucket_name = "''b''"
      and destination_folder = "''d''" and z = two_zip and v = bucket_world
      and tmpdirname = "''/tmp/tmp''" and wa = ?wa and fs = ?fs and wb = ?wb and tpre = "[]"
      and root = "''/tmp/tmp''" and dirs = "[''sub'']" and pre = "[''a.zip'']" and failing = "''x.txt''"
      and post = "[]" and tpost = "[(''/tmp/tmp/sub'', [], [''y.txt''])]" and wc = ?wb and wd = ?wd
      and data = "''hello''" and e' = ?err and rest' = "[good_txt]"]
  have a1: "lower (snd (splitext (name f_txt))) \<noteq> ''.zip''"
    by code_simp
  have a2: "fresh_tmp ?P bucket_world"
    by (simp add: fresh_tmp_def bucket_world_def)
  have a3: "fault ?P (calls bucket_world) (Upload ''b'' (path_join ''d'' [name f_txt]) (getbuffer f_txt))
              = Some ?err"
    by code_simp
  have a: "upload_loop ?P ''b'' ''b'' ''d'' [f_txt, good_txt] bucket_world
             = (Inl ?err,
                bucket_world\<lparr>calls := calls bucket_world @
                     [Upload ''b'' (path_join ''d'' [name f_txt]) (getbuffer f_txt)],
                  local_tmp := local_tmp bucket_world @
                     [(tmp_name ?P (tmp_count bucket_world), File (getbuffer f_txt))],
                  tmp_count := Suc (tmp_count bucket_world)\<rparr>)"
    using T a1 a2 a3 by blast
  have a': "bucket_world\<lparr>calls := calls bucket_world @
                     [Upload ''b'' (path_join ''d'' [name f_txt]) (getbuffer f_txt)],
                  local_tmp := local_tmp bucket_world @
                     [(tmp_name ?P (tmp_count bucket_world), File (getbuffer f_txt))],
                  tmp_count := Suc (tmp_count bucket_world)\<rparr>
            = bucket_world\<lparr>calls := [Upload ''b'' ''d/f.txt'' ''data''],
                local_tmp := [(''/tmp/tmp'', File ''data'')],
                tmp_count := 1\<rparr>"
    by code_simp
  have z1: "lower (snd (splitext (name two_zip))) = ''.zip''"
    by code_simp
  have b: "fst (upload_item ?E ''b'' ''b'' ''d'' two_zip bucket_world) = Inr ()"
    using U z1 by blast
  have z2: "new_tmp ?E (Dir []) bucket_world = (''/tmp/tmp'', ?wa)"
    by code_simp
  have z3: "write_local (local_tmp ?wa) (path_join ''/tmp/tmp'' [name two_zip]) (getbuffer two_zip) = Inr ?fs"
    by code_simp
  have z4: "extractall ?E (path_join ''/tmp/tmp'' [name two_zip]) ''/tmp/tmp'' (?wa\<lparr>local_tmp := ?fs\<rparr>)
              = (Inr (), ?wb)"
    by code_simp
  have z5: "os_walk ''/tmp/tmp'' ?wb
              = [] @ (''/tmp/tmp'', [''sub''], [''a.zip''] @ ''x.txt'' # []) # [(''/tmp/tmp/sub'', [], [''y.txt''])]"
    by code_simp
  have z6: "upload_walk ?E ''b'' ''b'' ''d'' (name two_zip) ''/tmp/tmp'' [] ?wb = (Inr (), ?wb)"
    by simp
  have z7: "upload_walk_files ?E ''b'' ''b'' ''d'' (name two_zip) ''/tmp/tmp'' ''/tmp/tmp'' [''a.zip''] ?wb
              = (Inr (), ?wd)"
    by code_simp
  have z8: "read_local (local_tmp ?wd) (path_join ''/tmp/tmp'' [''x.txt'']) = Inr ''hello''"
    by code_simp
  have k: "path_join ''d'' [fst (splitext (name two_zip)), relpath (path_join ''/tmp/tmp'' [''x.txt'']) ''/tmp/tmp'']
             = ''d/a/x.txt''"
    by code_simp
  have c: "calls ?wd = [Upload ''b'' ''d/a/a.zip'' ''PK-two'']"
    by simp
  have z9: "fault ?E [Upload ''b'' ''d/a/a.zip'' ''PK-two''] (Upload ''b'' ''d/a/x.txt'' ''hello'') = Some ?err"
    by code_simp
  have z: "upload_loop ?E ''b'' ''b'' ''d'' [two_zip, good_txt] bucket_world
             = upload_loop ?E ''b'' ''b'' ''d'' [good_txt]
                 (remove_tmp ''/tmp/tmp''
                    (st (zip_error_line (name two_zip) ?err)
                       (?wd\<lparr>calls := calls ?wd @ [Upload ''b'' ''d/a/x.txt'' ''hello'']\<rparr>)))"
    using U z1 z2 z3 z4 z5 z6 z7 z8 z9 unfolding k c by blast
  have z': "remove_tmp ''/tmp/tmp''
              (st (zip_error_line (name two_zip) ?err)
                 (?wd\<lparr>calls := calls ?wd @ [Upload ''b'' ''d/a/x.txt'' ''hello'']\<rparr>))
            = \<lparr>remote = [(''b'', [(''old.txt'', ''old''), (''d/a/a.zip'', ''PK-two'')])],
               calls = [Upload ''b'' ''d/a/a.zip'' ''PK-two'', Upload ''b'' ''d/a/x.txt'' ''hello''],
               local_tmp = [],
               tmp_count = 1,
               messages = [uploaded_line ''d/a/a.zip'' ''b'', zip_error_line ''a.zip'' ?err]\<rparr>"
    by code_simp
  show ?thesis
    using a1 a2 a3 a z1 b z9 z unfolding a' z' by blast
qed

text \<open>
  Claim C3 as it is written fails on the zip branch. The store fails the upload of the member
  \<^verbatim>\<open>x.txt\<close> of \<^verbatim>\<open>a.zip\<close>; the error does not leave the pipeline, which ends normally, has
  reported the error as a line and has uploaded \<^verbatim>\<open>good.txt\<close> after it.
\<close>

theorem C3_zip_upload_failure_is_caught:
  "fault (demo_env (fault_key ''d/a/x.txt'')) [Exists ''b'', Create ''b'', Upload ''b'' ''d/a/a.zip'' ''PK-two'']
         (Upload ''b'' ''d/a/x.txt'' ''hello'')
     = Some (RemoteError ''503 Service Unavailable'')
   \<and> upload_files_to_gcs (demo_env (fault_key ''d/a/x.txt'')) ''b'' [two_zip, good_txt] ''d'' () empty_world
     = (Inr (),
        \<lparr>remote = [(''b'', [(''d/a/a.zip'', ''PK-two''), (''d/good.txt'', ''gg'')])],
         calls = [Exists ''b'', Create ''b'', Upload ''b'' ''d/a/a.zip'' ''PK-two'',
                  Upload ''b'' ''d/a/x.txt'' ''hello'', Upload ''b'' ''d/good.txt'' ''gg''],
         local_tmp = [],
         tmp_count = 2,
         messages = [created_line ''b'', uploaded_line ''d/a/a.zip'' ''b'',
                     zip_error_line ''a.zip'' (RemoteError ''503 Service Unavailable''),
                     uploaded_line ''d/good.txt'' ''b'']\<rparr>)"
  by code_simp

subsection \<open>The objects of a zip item\<close>

text \<open>
  Claim C1 asks for exactly N objects from an archive of N files. The archive is saved into
  the directory it is extracted to, and the walk of that directory finds it: the archive
  \<^verbatim>\<open>a.zip\<close> with the one member \<^verbatim>\<open>x.txt\<close> yields two upload calls and two objects, the
  first of them the archive itself under \<^verbatim>\<open>d/a/a.zip\<close>.
\<close>

theorem C1_archive_itself_uploaded:
  "zip_members (demo_env no_fault) (getbuffer one_zip) = Inr [([''x.txt''], ''hello'')]
   \<and> upload_files_to_gcs (demo_env no_fault) ''b'' [one_zip] ''d'' () empty_world
     = (Inr (),
        \<lparr>remote = [(''b'', [(''d/a/a.zip'', ''PK-one''), (''d/a/x.txt'', ''hello'')])],
         calls = [Exists ''b'', Create ''b'', Upload ''b'' ''d/a/a.zip'' ''PK-one'',
                  Upload ''b'' ''d/a/x.txt'' ''hello''],
         local_tmp = [],
         tmp_count = 1,
         messages = [created_line ''b'', uploaded_line ''d/a/a.zip'' ''b'',
                     uploaded_line ''d/a/x.txt'' ''b'']\<rparr>)"
  by code_simp

subsection \<open>A corrupt archive\<close>

lemma split_on_no_sep:
  "c \<notin> set s \<Longrightarrow> split_on c s = [s]"
  by (induction s) auto

lemma write_node_empty:
  "write_node comps data [] = Inr es \<Longrightarrow> \<exists>c. comps = [c] \<and> es = [(c, File data)]"
  by (cases "(comps, data, [] :: (string \<times> node) list)" rule: write_node.cases) auto

lemma write_local_new_dir:
  assumes "write_local [(p, Dir [])] path data = Inr fs"
  shows "\<exists>c. fs = [(p, Dir [(c, File data)])] \<and> read_local fs path = Inr data"
proof -
  have s: "startswith path (p @ ''/'')"
    using assms by (auto split: if_splits)
  then have ne: "path \<noteq> p"
    by (auto simp add: startswith_def)
  from assms s obtain es where
    es: "write_node (split_on CHR ''/'' (drop (length p + 1) path)) data [] = Inr es"
    and fs: "fs = [(p, Dir es)]"
    by (auto split: sum.splits)
  from write_node_empty [OF es] obtain c where
    c: "split_on CHR ''/'' (drop (length p + 1) path) = [c]" "es = [(c, File data)]"
    by blast
  show ?thesis
    using s ne c fs by simp
qed

lemma zip_try_corrupt:
  assumes "local_tmp wa = [(p, Dir [])]"
    and "zip_members env (getbuffer f) = Inl e"
  shows "\<exists>e' es. zip_try env bucket bucket_name destination_folder f p wa
                    = (Inl e', wa\<lparr>local_tmp := [(p, Dir es)]\<rparr>)
                  \<and> (write_local [(p, Dir [])] (path_join p [name f]) (getbuffer f) \<noteq>
                       Inl e' \<longrightarrow> e' = e)"
proof (cases "write_local [(p, Dir [])] (path_join p [name f]) (getbuffer f)")
  case (Inl e1)
  have "wa\<lparr>local_tmp := [(p, Dir [])]\<rparr> = wa"
    using assms(1) by (cases wa) simp
  then have "zip_try env bucket bucket_name destination_folder f p wa
               = (Inl e1, wa\<lparr>local_tmp := [(p, Dir [])]\<rparr>)"
    using Inl assms(1) by (simp add: zip_try_def Let_def)
  then show ?thesis
    using Inl by blast
next
  case (Inr fs)
  from write_local_new_dir [OF Inr] obtain c where
    c: "fs = [(p, Dir [(c, File (getbuffer f))])]"
    and r: "read_local fs (path_join p [name f]) = Inr (getbuffer f)"
    by blast
  have "zip_try env bucket bucket_name destination_folder f p wa = (Inl e, wa\<lparr>local_tmp := fs\<rparr>)"
    using Inr assms r by (simp add: zip_try_def Let_def extractall_def)
  then show ?thesis
    using c by auto
qed

lemma save_in_new_dir:
  assumes "p \<noteq> []" "\<not> endswith p ''/''" "CHR ''/'' \<notin> set filename"
  shows "write_local [(p, Dir [])] (path_join p [filename]) data = Inr [(p, Dir [(filename, File data)])]"
proof -
  have "\<not> startswith filename ''/''"
    using assms(3) by (cases filename) (auto simp add: startswith_def)
  then have "path_join p [filename] = p @ ''/'' @ filename"
    using assms(1,2) by (simp add: path_join_two)
  then show ?thesis
    using assms(3) by (simp add: startswith_def split_on_no_sep)
qed

lemma upload_zip_corrupt:
  assumes "local_tmp w = []"
    and "zip_members env (getbuffer f) = Inl e"
  shows "\<exists>e'. upload_zip env bucket bucket_name destination_folder f w
               = (Inr (), w\<lparr>tmp_count := Suc (tmp_count w),
                           messages := messages w @ [zip_error_line (name f) e']\<rparr>)
             \<and> (tmp_name env (tmp_count w) \<noteq> [] \<and> \<not> endswith (tmp_name env (tmp_count w)) ''/''
                  \<and> CHR ''/'' \<notin> set (name f) \<longrightarrow> e' = e)"
proof -
  let ?p = "tmp_name env (tmp_count w)"
  let ?wa = "w\<lparr>local_tmp := local_tmp w @ [(?p, Dir [])], tmp_count := Suc (tmp_count w)\<rparr>"
  have l: "local_tmp ?wa = [(?p, Dir [])]"
    using assms(1) by simp
  from zip_try_corrupt [OF l assms(2)] obtain e' es where
    t: "zip_try env bucket bucket_name destination_folder f ?p ?wa
          = (Inl e', ?wa\<lparr>local_tmp := [(?p, Dir es)]\<rparr>)"
    and w: "write_local [(?p, Dir [])] (path_join ?p [name f]) (getbuffer f) \<noteq> Inl e' \<longrightarrow> e' = e"
    by blast
  have n: "new_tmp env (Dir []) w = (?p, ?wa)"
    by (simp add: new_tmp_def Let_def)
  have "remove_tmp ?p (st (zip_error_line (name f) e') (?wa\<lparr>local_tmp := [(?p, Dir es)]\<rparr>))
          = w\<lparr>tmp_count := Suc (tmp_count w), messages := messages w @ [zip_error_line (name f) e']\<rparr>"
    using assms(1) by (cases w) (simp add: remove_tmp_def st_def)
  with upload_zip_catches [OF n t]
  have "upload_zip env bucket bucket_name destination_folder f w
          = (Inr (), w\<lparr>tmp_count := Suc (tmp_count w),
                       messages := messages w @ [zip_error_line (name f) e']\<rparr>)"
    by simp
  moreover have "?p \<noteq> [] \<and> \<not> endswith ?p ''/'' \<and> CHR ''/'' \<notin> set (name f) \<longrightarrow> e' = e"
    using w save_in_new_dir [of ?p "name f" "getbuffer f"] by auto
  ultimately show ?thesis
    by blast
qed

lemma startswith_take:
  "startswith s a \<Longrightarrow> n \<le> length a \<Longrightarrow> take n s = take n a"
  by (metis startswith_def take_take min.absorb1)

lemma below_fresh:
  assumes "q \<noteq> p" "\<not> startswith p (q @ ''/'')" "\<not> startswith q (p @ ''/'')"
    and "startswith path (p @ ''/'')"
  shows "path \<noteq> q \<and> \<not> startswith path (q @ ''/'')"
proof
  show "path \<noteq> q"
    using assms(3,4) by auto
  show "\<not> startswith path (q @ ''/'')"
  proof
    assume s: "startswith path (q @ ''/'')"
    consider "length q < length p" | "length q = length p" | "length p < length q"
      by linarith
    then show False
    proof cases
      case 1
      have "take (length q + 1) path = take (length q + 1) (p @ ''/'')"
        using assms(4) 1 by (intro startswith_take) simp_all
      then have "take (length q + 1) p = q @ ''/''"
        using s 1 by (simp add: startswith_def)
      then show False
        using assms(2) by (simp add: startswith_def)
    next
      case 2
      have "take (length q + 1) path = p @ ''/''"
        using assms(4) 2 by (simp add: startswith_def)
      then show False
        using s assms(1) by (simp add: startswith_def)
    next
      case 3
      have "take (length p + 1) path = take (length p + 1) (q @ ''/'')"
        using s 3 by (intro startswith_take) simp_all
      then have "take (length p + 1) q = p @ ''/''"
        using assms(4) 3 by (simp add: startswith_def)
      then show False
        using assms(3) by (simp add: startswith_def)
    qed
  qed
qed

lemma write_local_skip:
  "\<forall>(q, n) \<in> set fs. \<not> startswith path (q @ ''/'') \<Longrightarrow>
     write_local (fs @ r) path data =
       (case write_local r path data of Inl e \<Rightarrow> Inl e | Inr r' \<Rightarrow> Inr (fs @ r'))"
  by (induction fs) (auto split: sum.splits)

lemma read_local_skip:
  "\<forall>(q, n) \<in> set fs. path \<noteq> q \<and> \<not> startswith path (q @ ''/'') \<Longrightarrow>
     read_local (fs @ r) path = read_local r path"
  by (induction fs) auto

lemma upload_zip_corrupt_fresh:
  assumes fresh: "fresh_tmp env w"
    and proper: "tmp_name env (tmp_count w) \<noteq> []" "\<not> endswith (tmp_name env (tmp_count w)) ''/''"
    and plain: "CHR ''/'' \<notin> set (name f)"
    and corrupt: "zip_members env (getbuffer f) = Inl e"
  shows "upload_zip env bucket bucket_name destination_folder f w
           = (Inr (), w\<lparr>tmp_count := Suc (tmp_count w),
                        messages := messages w @ [zip_error_line (name f) e]\<rparr>)"
proof -
  let ?p = "tmp_name env (tmp_count w)"
  let ?path = "path_join ?p [name f]"
  let ?wa = "w\<lparr>local_tmp := local_tmp w @ [(?p, Dir [])], tmp_count := Suc (tmp_count w)\<rparr>"
  let ?dir = "[(?p, Dir [(name f, File (getbuffer f))])]"
  have n: "new_tmp env (Dir []) w = (?p, ?wa)"
    by (simp add: new_tmp_def Let_def)
  have saved: "write_local [(?p, Dir [])] ?path (getbuffer f) = Inr ?dir"
    using proper plain by (rule save_in_new_dir)
  from write_local_new_dir [OF saved]
  have reread: "read_local ?dir ?path = Inr (getbuffer f)"
    by simp
  have below: "startswith ?path (?p @ ''/'')"
    using saved by (auto split: if_splits)
  have others: "\<forall>(q, n) \<in> set (local_tmp w). ?path \<noteq> q \<and> \<not> startswith ?path (q @ ''/'')"
    using fresh below_fresh [OF _ _ _ below] by (auto simp add: fresh_tmp_def)
  then have others': "\<forall>(q, n) \<in> set (local_tmp w). \<not> startswith ?path (q @ ''/'')"
    by auto
  have w1: "write_local (local_tmp ?wa) ?path (getbuffer f) = Inr (local_tmp w @ ?dir)"
    using write_local_skip [OF others', of "[(?p, Dir [])]" "getbuffer f"] saved by simp
  have r1: "read_local (local_tmp w @ ?dir) ?path = Inr (getbuffer f)"
    using read_local_skip [OF others, of ?dir] reread by simp
  have "zip_try env bucket bucket_name destination_folder f ?p ?wa
          = (Inl e, ?wa\<lparr>local_tmp := local_tmp w @ ?dir\<rparr>)"
    using w1 r1 corrupt by (simp add: zip_try_def Let_def extractall_def)
  from upload_zip_catches [OF n this]
  have "upload_zip env bucket bucket_name destination_folder f w
          = (Inr (), remove_tmp ?p (st (zip_error_line (name f) e)
                                      (?wa\<lparr>local_tmp := local_tmp w @ ?dir\<rparr>)))" .
  moreover have "remove_tmp ?p (st (zip_error_line (name f) e) (?wa\<lparr>local_tmp := local_tmp w @ ?dir\<rparr>))
                   = w\<lparr>tmp_count := Suc (tmp_count w),
                       messages := messages w @ [zip_error_line (name f) e]\<rparr>"
    using fresh_tmp_notin [OF fresh]
    by (cases w) (simp add: remove_tmp_def st_def delete_fresh_snoc)
  ultimately show ?thesis
    by simp
qed

text \<open>
  Claim C4. A zip item whose archive the reader rejects costs one temporary name and one
  error line, the error of the reader, and nothing else: no call reaches the store, the
  temporary directory is gone, the temporary files that were there before are untouched, and
  the loop goes on with the items after it from that state. This holds when the temporary
  name is fresh and proper and the file name has no separator. When no temporary file
  exists at all, it holds for every file name, with the error that the save or the reader
  raised.
\<close>

theorem C4_corrupt_zip_isolated:
  assumes "lower (snd (splitext (name f))) = ''.zip''"
    and "zip_members env (getbuffer f) = Inl e"
  shows "(fresh_tmp env w \<and> tmp_name env (tmp_count w) \<noteq> []
            \<and> \<not> endswith (tmp_name env (tmp_count w)) ''/'' \<and> CHR ''/'' \<notin> set (name f) \<longrightarrow>
          upload_loop env bucket bucket_name destination_folder (f # rest) w
            = upload_loop env bucket bucket_name destination_folder rest
                (w\<lparr>tmp_count := Suc (tmp_count w),
                   messages := messages w @ [zip_error_line (name f) e]\<rparr>))
       \<and> (local_tmp w = [] \<longrightarrow>
           (\<exists>e'. upload_loop env bucket bucket_name destination_folder (f # rest) w
                   = upload_loop env bucket bucket_name destination_folder rest
                       (w\<lparr>tmp_count := Suc (tmp_count w),
                          messages := messages w @ [zip_error_line (name f) e']\<rparr>)))"
proof (intro conjI impI)
  assume "fresh_tmp env w \<and> tmp_name env (tmp_count w) \<noteq> []
            \<and> \<not> endswith (tmp_name env (tmp_count w)) ''/'' \<and> CHR ''/'' \<notin> set (name f)"
  then have "upload_zip env bucket bucket_name destination_folder f w
               = (Inr (), w\<lparr>tmp_count := Suc (tmp_count w),
                            messages := messages w @ [zip_error_line (name f) e]\<rparr>)"
    using assms(2) by (intro upload_zip_corrupt_fresh) simp_all
  then show "upload_loop env bucket bucket_name destination_folder (f # rest) w
               = upload_loop env bucket bucket_name destination_folder rest
                   (w\<lparr>tmp_count := Suc (tmp_count w),
                      messages := messages w @ [zip_error_line (name f) e]\<rparr>)"
    using assms(1) by (simp add: upload_item_def)
next
  assume "local_tmp w = []"
  from upload_zip_corrupt [OF this assms(2)] obtain e' where
    "upload_zip env bucket bucket_name destination_folder f w
       = (Inr (), w\<lparr>tmp_count := Suc (tmp_count w),
                    messages := messages w @ [zip_error_line (name f) e']\<rparr>)"
    by blast
  then show "\<exists>e'. upload_loop env bucket bucket_name destination_folder (f # rest) w
                   = upload_loop env bucket bucket_name destination_folder rest
                       (w\<lparr>tmp_count := Suc (tmp_count w),
                          messages := messages w @ [zip_error_line (name f) e']\<rparr>)"
    using assms(1) by (auto simp add: upload_item_def)
qed

text \<open>
  The theorem at the batch of \<^verbatim>\<open>corrupt.zip\<close> and \<^verbatim>\<open>good.txt\<close>, once with a temporary
  file left over from before and once without: one error line, then the upload of
  \<^verbatim>\<open>good.txt\<close>.
\<close>

theorem C4_corrupt_zip_isolated_witness:
  "lower (snd (splitext (name corrupt_zip))) = ''.zip''
   \<and> zip_members (demo_env no_fault) (getbuffer corrupt_zip) = Inl (BadZipFile ''File is not a zip file'')
   \<and> fresh_tmp (demo_env no_fault) leftover_world
   \<and> upload_loop (demo_env no_fault) ''b'' ''b'' ''d'' [corrupt_zip, good_txt] leftover_world
       = (Inr (),
          \<lparr>remote = [(''b'', [(''d/good.txt'', ''gg'')])],
           calls = [Upload ''b'' ''d/good.txt'' ''gg''],
           local_tmp = [(''/tmp/tmpold'', File ''data'')],
           tmp_count = 2,
           messages = [zip_error_line ''corrupt.zip'' (BadZipFile ''File is not a zip file''),
                       uploaded_line ''d/good.txt'' ''b'']\<rparr>)
   \<and> local_tmp bucket_world = []
   \<and> (\<exists>e'. upload_loop (demo_env no_fault) ''b'' ''b'' ''d'' [corrupt_zip, good_txt] bucket_world
             = upload_loop (demo_env no_fault) ''b'' ''b'' ''d'' [good_txt]
                 (bucket_world\<lparr>tmp_count := Suc (tmp_count bucket_world),
                    messages := messages bucket_world @ [zip_error_line (name corrupt_zip) e']\<rparr>))"
proof -
  let ?E = "demo_env no_fault"
  let ?e = "BadZipFile ''File is not a zip file''"
  have h1: "lower (snd (splitext (name corrupt_zip))) = ''.zip''"
    by code_simp
  have h2: "zip_members ?E (getbuffer corrupt_zip) = Inl ?e"
    by code_simp
  have h3: "fresh_tmp ?E leftover_world"
    by code_simp
  have h4: "tmp_name ?E (tmp_count leftover_world) \<noteq> [] \<and> \<not> endswith (tmp_name ?E (tmp_count leftover_world)) ''/''
             \<and> CHR ''/'' \<notin> set (name corrupt_zip)"
    by code_simp
  have h5: "local_tmp bucket_world = []"
    by code_simp
  note T = C4_corrupt_zip_isolated [OF h1 h2, of _ "''b''" "''b''" "''d''" "[good_txt]"]
  from T [of leftover_world, THEN conjunct1] h3 h4
  have "upload_loop ?E ''b'' ''b'' ''d'' [corrupt_zip, good_txt] leftover_world
          = upload_loop ?E ''b'' ''b'' ''d'' [good_txt]
              (leftover_world\<lparr>tmp_count := Suc (tmp_count leftover_world),
                 messages := messages leftover_world @ [zip_error_line (name corrupt_zip) ?e]\<rparr>)"
    by simp
  also have "\<dots> = (Inr (),
          \<lparr>remote = [(''b'', [(''d/good.txt'', ''gg'')])],
           calls = [Upload ''b'' ''d/good.txt'' ''gg''],
           local_tmp = [(''/tmp/tmpold'', File ''data'')],
           tmp_count = 2,
           messages = [zip_error_line ''corrupt.zip'' ?e, uploaded_line ''d/good.txt'' ''b'']\<rparr>)"
    by code_simp
  finally have a: "upload_loop ?E ''b'' ''b'' ''d'' [corrupt_zip, good_txt] leftover_world
      = (Inr (),
          \<lparr>remote = [(''b'', [(''d/good.txt'', ''gg'')])],
           calls = [Upload ''b'' ''d/good.txt'' ''gg''],
           local_tmp = [(''/tmp/tmpold'', File ''data'')],
           tmp_count = 2,
           messages = [zip_error_line ''corrupt.zip'' ?e, uploaded_line ''d/good.txt'' ''b'']\<rparr>)" .
  have b: "\<exists>e'. upload_loop ?E ''b'' ''b'' ''d'' [corrupt_zip, good_txt] bucket_world
             = upload_loop ?E ''b'' ''b'' ''d'' [good_txt]
                 (bucket_world\<lparr>tmp_count := Suc (tmp_count bucket_world),
                    messages := messages bucket_world @ [zip_error_line (name corrupt_zip) e']\<rparr>)"
    using T [of bucket_world, THEN conjunct2] h5 by (rule mp)
  show ?thesis
    using h1 h2 h3 a h5 b by (intro conjI)
qed

subsection \<open>The Upload button with an incomplete form\<close>



subsection \<open>The private key\<close>

text \<open>
  The right-hand side of line 76 is the rewriting that the specification describes: it
  leaves no backslash, \<^verbatim>\<open>n\<close> behind, turns each occurrence into one line break, and changes
  nothing else.
\<close>

lemma str_replace_unescape:
  "str_replace [CHR 0x5C, CHR ''n''] [CHR 0x0A] s = unescape_newlines s"
  by (induction s rule: unescape_newlines.induct) (simp_all add: startswith_def)

lemma unescape_head:
  "unescape_newlines (b # cs) = x # xs \<Longrightarrow> x = b \<or> x = CHR 0x0A"
  by (cases cs) (auto split: if_splits)

lemma unescape_no_escape:
  "unescape_newlines s \<noteq> u @ CHR 0x5C # CHR ''n'' # v"
proof (induction s arbitrary: u v rule: unescape_newlines.induct)
  case (1 a b cs)
  show ?case
  proof (cases "a = CHR 0x5C \<and> b = CHR ''n''")
    case True
    then show ?thesis
      using "1.IH"(1) by (cases u) auto
  next
    case False
    show ?thesis
    proof (cases u)
      case Nil
      then show ?thesis
        using False unescape_head [of b cs "CHR ''n''" v] by auto
    next
      case (Cons c u')
      then show ?thesis
        using False "1.IH"(2) by auto
    qed
  qed
next
  case "2_1"
  then show ?case by simp
next
  case "2_2"
  then show ?case by (cases u) auto
qed

lemma unescape_append_escape:
  "unescape_newlines (u @ CHR 0x5C # CHR ''n'' # v) = unescape_newlines u @ CHR 0x0A # unescape_newlines v"
  by (induction u rule: unescape_newlines.induct) simp_all

lemma unescape_without_escape:
  "(\<And>u v. s \<noteq> u @ CHR 0x5C # CHR ''n'' # v) \<Longrightarrow> unescape_newlines s = s"
proof (induction s rule: unescape_newlines.induct)
  case (1 a b cs)
  have n: "\<not> (a = CHR 0x5C \<and> b = CHR ''n'')"
    using "1.prems" [of "[]" cs] by auto
  have "\<And>u v. b # cs \<noteq> u @ CHR 0x5C # CHR ''n'' # v"
    using "1.prems" by (metis append_Cons)
  with "1.IH"(2) n show ?case
    by simp
qed simp_all

lemma string_key_not_assigned:
  assumes "map_of (secrets f) ''service_account'' = Some credentials_info"
    and "map_of credentials_info ''private_key'' = Some (Str s)"
  shows "main_credentials env f w
           = (Inl (TypeError (quoted ''AttrDict'' @ '' object does not support item assignment'')), w)"
proof -
  have "credentials_info \<noteq> []"
    using assms(2) by auto
  then show ?thesis
    using assms by (simp add: main_credentials_def format_private_key_def attrdict_setitem_def)
qed

text \<open>
  Claim C9 asks that the record reaches \<open>from_service_account_info\<close> with the escaped line
  breaks of its private key rewritten. The right-hand side of line 76 is that rewriting, but
  the assignment to the section of the secrets store raises: for the record \<open>demo_info\<close>, whose
  key holds two escaped line breaks, the loading of the credentials ends in \<^verbatim>\<open>TypeError\<close>,
  \<open>from_service_account_info\<close> is not reached, and \<open>main\<close> stops after the title.
\<close>

theorem C9_private_key_assignment_raises:
  "map_of demo_info ''private_key''
     = Some (Str (''-----BEGIN'' @ [CHR 0x5C, CHR ''n''] @ ''MIIE'' @ [CHR 0x5C, CHR ''n''] @ ''-----END''))
   \<and> str_replace [CHR 0x5C, CHR ''n''] [CHR 0x0A]
         (''-----BEGIN'' @ [CHR 0x5C, CHR ''n''] @ ''MIIE'' @ [CHR 0x5C, CHR ''n''] @ ''-----END'')
       = ''-----BEGIN'' @ [CHR 0x0A] @ ''MIIE'' @ [CHR 0x0A] @ ''-----END''
   \<and> format_private_key demo_info
       = Inl (TypeError (quoted ''AttrDict'' @ '' object does not support item assignment''))
   \<and> main_credentials (demo_env no_fault) (demo_form ''b'' [f_txt]) empty_world
       = (Inl (TypeError (quoted ''AttrDict'' @ '' object does not support item assignment'')), empty_world)
   \<and> main (demo_env no_fault) (demo_form ''b'' [f_txt]) empty_world
       = (Inl (TypeError (quoted ''AttrDict'' @ '' object does not support item assignment'')),
          empty_world\<lparr>messages := [StTitle ''Upload Files to Google Cloud Storage'']\<rparr>)"
  by code_simp

subsection \<open>Keys under an empty destination folder\<close>

lemma startswith_sep:
  "startswith b ''/'' \<longleftrightarrow> b \<noteq> [] \<and> hd b = CHR ''/''"
  by (cases b) (auto simp add: startswith_def)

lemma endswith_sep:
  "endswith a ''/'' \<longleftrightarrow> a \<noteq> [] \<and> last a = CHR ''/''"
proof (cases a rule: rev_cases)
  case Nil
  then show ?thesis by (simp add: endswith_def)
next
  case (snoc xs x)
  then show ?thesis by (auto simp add: endswith_def)
qed

lemma doubled_sep_append:
  "doubled_sep (xs @ ys) \<longleftrightarrow>
     doubled_sep xs \<or> doubled_sep ys \<or> (xs \<noteq> [] \<and> ys \<noteq> [] \<and> last xs = CHR ''/'' \<and> hd ys = CHR ''/'')"
proof (induction xs rule: doubled_sep.induct)
  case (1 a b cs)
  then show ?case by auto
next
  case "2_1"
  then show ?case by simp
next
  case "2_2"
  then show ?case by (cases ys) auto
qed

lemma doubled_sep_free:
  "CHR ''/'' \<notin> set b \<Longrightarrow> \<not> doubled_sep b"
  by (induction b rule: doubled_sep.induct) auto

lemma doubled_sep_take:
  "\<not> doubled_sep xs \<Longrightarrow> \<not> doubled_sep (take n xs)"
  using doubled_sep_append [of "take n xs" "drop n xs"] by simp

lemma rfind_lower:
  "- 1 \<le> rfind p c"
  by (induction p) (auto simp add: Let_def)

lemma rfind_after:
  "rfind p c < int k \<Longrightarrow> k < length p \<Longrightarrow> p ! k \<noteq> c"
proof (induction p arbitrary: k)
  case Nil
  then show ?case by simp
next
  case (Cons x xs)
  show ?case
  proof (cases k)
    case 0
    then show ?thesis
      using Cons.prems rfind_lower [of xs c] by (auto simp add: Let_def split: if_splits)
  next
    case (Suc k')
    then have "rfind xs c < int k'"
      using Cons.prems by (auto simp add: Let_def split: if_splits)
    then show ?thesis
      using Cons.IH [of k'] Cons.prems Suc by simp
  qed
qed

lemma splitext_loop_ext:
  "splitext_loop p i d = (r, e) \<Longrightarrow> e \<noteq> [] \<Longrightarrow> r = take d p \<and> e = drop d p \<and> i < d \<and> d < length p"
proof (induction p i d rule: splitext_loop.induct)
  case (1 p filenameIndex dotIndex)
  show ?case
  proof (cases "filenameIndex < dotIndex")
    case False
    then show ?thesis
      using "1.prems" by (simp add: splitext_loop.simps [of p filenameIndex dotIndex])
  next
    case True
    show ?thesis
    proof (cases "take 1 (drop filenameIndex p) \<noteq> ''.''")
      case True
      then show ?thesis
        using "1.prems" \<open>filenameIndex < dotIndex\<close>
        by (auto simp add: splitext_loop.simps [of p filenameIndex dotIndex])
    next
      case False
      then have "splitext_loop p (filenameIndex + 1) dotIndex = (r, e)"
        using "1.prems" \<open>filenameIndex < dotIndex\<close>
        by (simp add: splitext_loop.simps [of p filenameIndex dotIndex])
      from "1.IH" [OF \<open>filenameIndex < dotIndex\<close> _ this "1.prems"(2)] False
      show ?thesis by auto
    qed
  qed
qed

lemma splitext_root:
  assumes "snd (splitext p) \<noteq> []"
  shows "fst (splitext p) \<noteq> [] \<and> last (fst (splitext p)) \<noteq> CHR ''/''
         \<and> (\<exists>n. fst (splitext p) = take n p)"
proof -
  let ?s = "rfind p CHR ''/''" and ?d = "rfind p CHR ''.''"
  have lt: "?s < ?d"
    using assms by (auto simp add: splitext_def Let_def split: if_splits)
  then have sp: "splitext p = splitext_loop p (nat (?s + 1)) (nat ?d)"
    by (simp add: splitext_def Let_def)
  obtain r e where re: "splitext_loop p (nat (?s + 1)) (nat ?d) = (r, e)"
    by (cases "splitext_loop p (nat (?s + 1)) (nat ?d)")
  then have e: "e \<noteq> []"
    using assms sp by simp
  from splitext_loop_ext [OF re e]
  have r: "r = take (nat ?d) p" and i: "nat (?s + 1) < nat ?d" and d: "nat ?d < length p"
    by auto
  have pos: "0 < nat ?d"
    using i by linarith
  have "?s < int (nat ?d - 1)"
    using i rfind_lower [of p "CHR ''/''"] by linarith
  then have "p ! (nat ?d - 1) \<noteq> CHR ''/''"
    using d by (intro rfind_after) auto
  moreover have "r \<noteq> []"
    using r pos d by auto
  moreover have "last r = p ! (nat ?d - 1)"
  proof -
    have "take (nat ?d) p \<noteq> []" "length (take (nat ?d) p) = nat ?d"
      using pos d by auto
    then have "last (take (nat ?d) p) = take (nat ?d) p ! (nat ?d - 1)"
      by (simp add: last_conv_nth)
    also have "\<dots> = p ! (nat ?d - 1)"
      using pos by (intro nth_take) linarith
    finally show ?thesis
      using r by simp
  qed
  ultimately show ?thesis
    using sp re r by auto
qed

lemma split_on_sep_free:
  "w \<in> set (split_on c s) \<Longrightarrow> c \<notin> set w"
proof (induction s arbitrary: w)
  case Nil
  then show ?case by simp
next
  case (Cons x xs)
  then show ?case
    by (cases "split_on c xs") (auto split: if_splits)
qed

lemma sep_free_ends:
  "b \<noteq> [] \<Longrightarrow> c \<notin> set b \<Longrightarrow> hd b \<noteq> c \<and> last b \<noteq> c"
  by (induction b) auto

lemma join_step_component:
  assumes "acc \<noteq> []" "last acc \<noteq> CHR ''/''" "b \<noteq> []" "CHR ''/'' \<notin> set b"
  shows "join_step acc b = acc @ ''/'' @ b"
proof -
  have "hd b \<noteq> CHR ''/''"
    using assms(3,4) by (cases b) auto
  then show ?thesis
    using assms(1,2) by (simp add: join_step_def startswith_sep endswith_sep)
qed

lemma foldl_join_step_clean:
  assumes "acc \<noteq> []" "hd acc \<noteq> CHR ''/''" "last acc \<noteq> CHR ''/''" "\<not> doubled_sep acc"
    and "\<forall>b \<in> set rs. b \<noteq> [] \<and> CHR ''/'' \<notin> set b"
  shows "foldl join_step acc rs \<noteq> [] \<and> hd (foldl join_step acc rs) \<noteq> CHR ''/''
         \<and> \<not> doubled_sep (foldl join_step acc rs)"
  using assms
proof (induction rs arbitrary: acc)
  case Nil
  then show ?case by simp
next
  case (Cons b rs)
  have b: "b \<noteq> []" "CHR ''/'' \<notin> set b"
    using Cons.prems(5) by auto
  have j: "join_step acc b = acc @ ''/'' @ b"
    using Cons.prems(1,3) b by (rule join_step_component)
  have hb: "hd b \<noteq> CHR ''/''" "last b \<noteq> CHR ''/''"
    using sep_free_ends [OF b] by simp_all
  have d: "\<not> doubled_sep (CHR ''/'' # b)"
    using b hb doubled_sep_free [of b] by (cases b) auto
  have "foldl join_step (acc @ ''/'' @ b) rs \<noteq> [] \<and> hd (foldl join_step (acc @ ''/'' @ b) rs) \<noteq> CHR ''/''
         \<and> \<not> doubled_sep (foldl join_step (acc @ ''/'' @ b) rs)"
  proof (rule Cons.IH)
    show "acc @ ''/'' @ b \<noteq> []" by simp
    show "hd (acc @ ''/'' @ b) \<noteq> CHR ''/''" using Cons.prems(1,2) by simp
    show "last (acc @ ''/'' @ b) \<noteq> CHR ''/''" using b hb by simp
    show "\<not> doubled_sep (acc @ ''/'' @ b)"
      using Cons.prems(3,4) d by (simp add: doubled_sep_append)
    show "\<forall>b \<in> set rs. b \<noteq> [] \<and> CHR ''/'' \<notin> set b" using Cons.prems(5) by simp
  qed
  then show ?case
    by (simp add: j)
qed


lemma rel_list_components:
  assumes "b \<in> set (replicate n ''..'' @ drop i (filter (\<lambda>x. x \<noteq> []) (split_on CHR ''/'' path)))"
  shows "b \<noteq> [] \<and> CHR ''/'' \<notin> set b"
proof -
  have "b \<in> set (replicate n ''..'') \<or> b \<in> set (drop i (filter (\<lambda>x. x \<noteq> []) (split_on CHR ''/'' path)))"
    using assms by (simp only: set_append Un_iff)
  then show ?thesis
  proof
    assume "b \<in> set (replicate n ''..'')"
    then have "b = ''..''"
      by simp
    then show ?thesis
      by simp
  next
    assume "b \<in> set (drop i (filter (\<lambda>x. x \<noteq> []) (split_on CHR ''/'' path)))"
    then have "b \<in> set (filter (\<lambda>x. x \<noteq> []) (split_on CHR ''/'' path))"
      by (rule in_set_dropD)
    then have "b \<noteq> []" "b \<in> set (split_on CHR ''/'' path)"
      by simp_all
    then show ?thesis
      using split_on_sep_free [of b "CHR ''/''" path] by simp
  qed
qed

lemma relpath_unfold:
  "relpath path start =
     (case replicate (length (filter (\<lambda>x. x \<noteq> []) (split_on CHR ''/'' start))
                       - commonprefix_len (filter (\<lambda>x. x \<noteq> []) (split_on CHR ''/'' start))
                           (filter (\<lambda>x. x \<noteq> []) (split_on CHR ''/'' path))) ''..''
           @ drop (commonprefix_len (filter (\<lambda>x. x \<noteq> []) (split_on CHR ''/'' start))
                     (filter (\<lambda>x. x \<noteq> []) (split_on CHR ''/'' path)))
               (filter (\<lambda>x. x \<noteq> []) (split_on CHR ''/'' path)) of
        [] \<Rightarrow> ''.''
      | r # rs \<Rightarrow> path_join r rs)"
  by (simp add: relpath_def Let_def)

lemma relpath_clean:
  "relpath path start \<noteq> [] \<and> hd (relpath path start) \<noteq> CHR ''/'' \<and> \<not> doubled_sep (relpath path start)"
proof -
  let ?start_list = "filter (\<lambda>x. x \<noteq> []) (split_on CHR ''/'' start)"
  let ?path_list = "filter (\<lambda>x. x \<noteq> []) (split_on CHR ''/'' path)"
  let ?i = "commonprefix_len ?start_list ?path_list"
  let ?rel_list = "replicate (length ?start_list - ?i) ''..'' @ drop ?i ?path_list"
  have c: "\<forall>b \<in> set ?rel_list. b \<noteq> [] \<and> CHR ''/'' \<notin> set b"
    using rel_list_components by blast
  show ?thesis
  proof (cases ?rel_list)
    case Nil
    have "relpath path start = ''.''"
      unfolding relpath_unfold Nil by simp
    then show ?thesis
      by simp
  next
    case (Cons r rs)
    have "\<forall>b \<in> set (r # rs). b \<noteq> [] \<and> CHR ''/'' \<notin> set b"
      using c unfolding Cons .
    then have r: "r \<noteq> []" "CHR ''/'' \<notin> set r" and rs: "\<forall>b \<in> set rs. b \<noteq> [] \<and> CHR ''/'' \<notin> set b"
      by simp_all
    have hr: "hd r \<noteq> CHR ''/''" "last r \<noteq> CHR ''/''"
      using sep_free_ends [OF r] by simp_all
    have "relpath path start = foldl join_step r rs"
      unfolding relpath_unfold Cons by (simp add: path_join_def)
    with foldl_join_step_clean [OF r(1) hr doubled_sep_free [OF r(2)] rs]
    show ?thesis
      by simp
  qed
qed

lemma upload_from_filename_calls:
  "(fst (upload_from_filename env bucket k p w) \<noteq> Inr ()
      \<and> calls (snd (upload_from_filename env bucket k p w)) = calls w)
   \<or> (\<exists>d. calls (snd (upload_from_filename env bucket k p w)) = calls w @ [Upload bucket k d])"
  by (auto simp add: upload_from_filename_def upload_object_def Let_def
      split: sum.splits option.splits)

lemma upload_walk_files_calls:
  "\<exists>done rest ds.
     files = done @ rest \<and> length ds = length done
     \<and> calls (snd (upload_walk_files env bucket bucket_name destination_folder filename tmpdirname root files w))
         = calls w @ map2 (\<lambda>file d. Upload bucket
                             (path_join destination_folder
                                [fst (splitext filename), relpath (path_join root [file]) tmpdirname]) d)
                       done ds
     \<and> (fst (upload_walk_files env bucket bucket_name destination_folder filename tmpdirname root files w)
          = Inr () \<longrightarrow> rest = [])"
proof (induction files arbitrary: w)
  case Nil
  show ?case
    by (rule exI [of _ "[]"], rule exI [of _ "[]"], rule exI [of _ "[]"]) simp
next
  case (Cons fname files)
  let ?key = "\<lambda>file. path_join destination_folder
                        [fst (splitext filename), relpath (path_join root [file]) tmpdirname]"
  let ?up = "\<lambda>file d. Upload bucket (?key file) d"
  let ?r = "upload_from_filename env bucket (?key fname) (path_join root [fname]) w"
  obtain x w1 where r: "?r = (x, w1)"
    by (cases ?r)
  from upload_from_filename_calls [of env bucket "?key fname" "path_join root [fname]" w]
  have a: "(x \<noteq> Inr () \<and> calls w1 = calls w) \<or> (\<exists>d. calls w1 = calls w @ [?up fname d])"
    unfolding r by simp
  show ?case
  proof (cases x)
    case (Inl e)
    then have res: "upload_walk_files env bucket bucket_name destination_folder filename tmpdirname root
                      (fname # files) w = (Inl e, w1)"
      using r by (simp add: Let_def)
    from a show ?thesis
    proof
      assume "x \<noteq> Inr () \<and> calls w1 = calls w"
      then show ?thesis
        unfolding res
        by (intro exI [of _ "[]"] exI [of _ "fname # files"]) simp
    next
      assume "\<exists>d. calls w1 = calls w @ [?up fname d]"
      then obtain d where "calls w1 = calls w @ [?up fname d]" ..
      then show ?thesis
        unfolding res
        by (intro exI [of _ "[fname]"] exI [of _ files] exI [of _ "[d]"]) simp
    qed
  next
    case (Inr u)
    then have res: "upload_walk_files env bucket bucket_name destination_folder filename tmpdirname root
                      (fname # files) w
                    = upload_walk_files env bucket bucket_name destination_folder filename tmpdirname root
                        files (st (uploaded_line (?key fname) bucket_name) w1)"
      using r by (simp add: Let_def)
    from a Inr obtain d where d: "calls w1 = calls w @ [?up fname d]"
      by auto
    from Cons.IH [of "st (uploaded_line (?key fname) bucket_name) w1"]
    obtain done' rest ds where
      i: "files = done' @ rest" "length ds = length done'"
         "calls (snd (upload_walk_files env bucket bucket_name destination_folder filename tmpdirname root
                        files (st (uploaded_line (?key fname) bucket_name) w1)))
            = calls (st (uploaded_line (?key fname) bucket_name) w1) @ map2 ?up done' ds"
         "fst (upload_walk_files env bucket bucket_name destination_folder filename tmpdirname root
                 files (st (uploaded_line (?key fname) bucket_name) w1)) = Inr () \<longrightarrow> rest = []"
      by blast
    have c: "calls (st (uploaded_line (?key fname) bucket_name) w1) = calls w @ [?up fname d]"
      using d by (simp add: st_def)
    show ?thesis
      unfolding res
      using i c
      by (intro exI [of _ "fname # done'"] exI [of _ rest] exI [of _ "d # ds"]) simp
  qed
qed

lemma upload_walk_calls:
  "\<exists>done rest ds.
     walk_files triples = done @ rest \<and> length ds = length done
     \<and> calls (snd (upload_walk env bucket bucket_name destination_folder filename tmpdirname triples w))
         = calls w @ map2 (\<lambda>(root, file) d. Upload bucket
                             (path_join destination_folder
                                [fst (splitext filename), relpath (path_join root [file]) tmpdirname]) d)
                       done ds
     \<and> (fst (upload_walk env bucket bucket_name destination_folder filename tmpdirname triples w)
          = Inr () \<longrightarrow> rest = [])"
proof (induction triples arbitrary: w)
  case Nil
  show ?case
    by (rule exI [of _ "[]"], rule exI [of _ "[]"], rule exI [of _ "[]"]) (simp add: walk_files_def)
next
  case (Cons t triples)
  obtain root dirs files where t: "t = (root, dirs, files)"
    by (cases t)
  let ?up = "\<lambda>(root, file) d. Upload bucket
               (path_join destination_folder
                  [fst (splitext filename), relpath (path_join root [file]) tmpdirname]) d"
  let ?r = "upload_walk_files env bucket bucket_name destination_folder filename tmpdirname root files w"
  obtain x w1 where r: "?r = (x, w1)"
    by (cases ?r)
  from upload_walk_files_calls [of files env bucket bucket_name destination_folder filename tmpdirname root w]
  obtain done1 rest1 ds1 where
    f: "files = done1 @ rest1" "length ds1 = length done1"
       "calls w1 = calls w @ map2 (\<lambda>file. ?up (root, file)) done1 ds1"
       "x = Inr () \<longrightarrow> rest1 = []"
    unfolding r by auto
  have m: "map2 (\<lambda>file. ?up (root, file)) done1 ds1 = map2 ?up (map (Pair root) done1) ds1"
    by (auto simp add: zip_map1)
  have wf: "walk_files (t # triples) = map (Pair root) done1 @ map (Pair root) rest1 @ walk_files triples"
    using f(1) by (simp add: walk_files_def t)
  show ?case
  proof (cases x)
    case (Inl e)
    then have res: "upload_walk env bucket bucket_name destination_folder filename tmpdirname (t # triples) w
                    = (Inl e, w1)"
      using r by (simp add: t)
    show ?thesis
      unfolding res
      using wf f(2,3) m
      by (intro exI [of _ "map (Pair root) done1"] exI [of _ "map (Pair root) rest1 @ walk_files triples"]
          exI [of _ ds1]) simp
  next
    case (Inr u)
    then have res: "upload_walk env bucket bucket_name destination_folder filename tmpdirname (t # triples) w
                    = upload_walk env bucket bucket_name destination_folder filename tmpdirname triples w1"
      using r by (simp add: t)
    have all: "rest1 = []"
      using f(4) Inr by simp
    from Cons.IH [of w1] obtain done2 rest2 ds2 where
      i: "walk_files triples = done2 @ rest2" "length ds2 = length done2"
         "calls (snd (upload_walk env bucket bucket_name destination_folder filename tmpdirname triples w1))
            = calls w1 @ map2 ?up done2 ds2"
         "fst (upload_walk env bucket bucket_name destination_folder filename tmpdirname triples w1) = Inr ()
            \<longrightarrow> rest2 = []"
      by blast
    have z: "map2 ?up (map (Pair root) done1 @ done2) (ds1 @ ds2)
               = map2 ?up (map (Pair root) done1) ds1 @ map2 ?up done2 ds2"
      using f(2) by simp
    show ?thesis
      unfolding res
      using wf all f(2,3) i m z
      by (intro exI [of _ "map (Pair root) done1 @ done2"] exI [of _ rest2] exI [of _ "ds1 @ ds2"]) simp
  qed
qed

lemma extractall_calls:
  "calls (snd (extractall env temp_zip_path tmpdirname w)) = calls w"
  by (simp add: extractall_def split: sum.splits option.splits node.splits)

lemma path_join_empty_folder:
  "path_join [] [filename] = filename"
  by (simp add: path_join_def join_step_def)

lemma zip_key_empty_folder:
  assumes z: "lower (snd (splitext filename)) = ''.zip''"
  shows "path_join [] [fst (splitext filename), relpath p t] = fst (splitext filename) @ ''/'' @ relpath p t
         \<and> (\<not> startswith filename ''/'' \<and> \<not> doubled_sep filename \<longrightarrow>
              \<not> startswith (fst (splitext filename) @ ''/'' @ relpath p t) ''/''
              \<and> \<not> doubled_sep (fst (splitext filename) @ ''/'' @ relpath p t))"
proof -
  let ?root = "fst (splitext filename)"
  let ?rel = "relpath p t"
  have rel: "?rel \<noteq> []" "hd ?rel \<noteq> CHR ''/''" "\<not> doubled_sep ?rel"
    using relpath_clean [of p t] by auto
  have "snd (splitext filename) \<noteq> []"
    using z by (auto simp add: lower_def)
  from splitext_root [OF this] obtain n where
    r: "?root \<noteq> []" "last ?root \<noteq> CHR ''/''" "?root = take n filename"
    by blast
  have k: "path_join [] [?root, ?rel] = ?root @ ''/'' @ ?rel"
    using r(1,2) rel(2) by (simp add: path_join_def join_step_def startswith_sep endswith_sep)
  have "0 < n"
    using r(1,3) by (cases n) simp_all
  then have h: "hd ?root = hd filename"
    using r(3) by (simp add: hd_take)
  have d: "\<not> doubled_sep (CHR ''/'' # ?rel)"
    using rel by (cases ?rel) auto
  have "\<not> startswith (?root @ ''/'' @ ?rel) ''/'' \<and> \<not> doubled_sep (?root @ ''/'' @ ?rel)"
    if c: "\<not> startswith filename ''/''" "\<not> doubled_sep filename"
  proof -
    have "\<not> doubled_sep ?root"
      using c(2) r(3) doubled_sep_take [of filename n] by simp
    moreover have "hd ?root \<noteq> CHR ''/''"
      using c(1) r(1,3) h by (auto simp add: startswith_sep)
    ultimately show ?thesis
      using r(1,2) d by (simp add: startswith_sep doubled_sep_append)
  qed
  with k show ?thesis by blast
qed

lemma plain_item_calls:
  assumes "lower (snd (splitext (name f))) \<noteq> ''.zip''" "fresh_tmp env w"
  shows "calls (snd (upload_item env bucket bucket_name destination_folder f w))
           = calls w @ [Upload bucket (path_join destination_folder [name f]) (getbuffer f)]"
  using assms(1)
  by (simp add: upload_item_def upload_plain_result [OF assms(2)] split: option.splits)

lemma zip_item_calls:
  assumes is_zip: "lower (snd (splitext (name z))) = ''.zip''"
    and made: "new_tmp env (Dir []) v = (tmpdirname, wa)"
    and saved: "write_local (local_tmp wa) (path_join tmpdirname [name z]) (getbuffer z) = Inr fs"
    and extracted: "extractall env (path_join tmpdirname [name z]) tmpdirname (wa\<lparr>local_tmp := fs\<rparr>)
                      = (Inr (), wb)"
  shows "calls (snd (upload_item env bucket bucket_name destination_folder z v))
           = calls (snd (upload_walk env bucket bucket_name destination_folder (name z) tmpdirname
                           (os_walk tmpdirname wb) wb))
         \<and> calls wb = calls v"
proof -
  have t: "zip_try env bucket bucket_name destination_folder z tmpdirname wa
             = upload_walk env bucket bucket_name destination_folder (name z) tmpdirname
                 (os_walk tmpdirname wb) wb"
    using saved extracted by (simp add: zip_try_def Let_def)
  have "calls (snd (upload_zip env bucket bucket_name destination_folder z v))
          = calls (snd (upload_walk env bucket bucket_name destination_folder (name z) tmpdirname
                          (os_walk tmpdirname wb) wb))"
    using made t by (simp add: upload_zip_def remove_tmp_def st_def split: prod.splits sum.splits)
  moreover have "calls wb = calls (wa\<lparr>local_tmp := fs\<rparr>)"
    using extractall_calls [of env "path_join tmpdirname [name z]" tmpdirname "wa\<lparr>local_tmp := fs\<rparr>"]
      extracted by simp
  moreover have "calls wa = calls v"
    using made by (auto simp add: new_tmp_def Let_def)
  ultimately show ?thesis
    using is_zip by (simp add: upload_item_def)
qed

text \<open>
  Claim C8. With the empty destination folder, an item that is no archive is uploaded under
  its file name: the one call that \<open>upload_item\<close> issues for it has that key. For a zip item
  whose archive was saved and extracted, the calls that \<open>upload_item\<close> issues are uploads of
  files of the walk, in the order of the walk (all of them when no upload fails), each under
  the archive's name without extension, one separator and the path of the file relative to the
  extraction directory. When the file name has no leading and no doubled separator, none of
  these keys has one.
\<close>

theorem C8_empty_destination_folder:
  "(lower (snd (splitext (name f))) \<noteq> ''.zip'' \<and> fresh_tmp env w \<longrightarrow>
      calls (snd (upload_item env bucket bucket_name [] f w))
        = calls w @ [Upload bucket (name f) (getbuffer f)])
   \<and> (lower (snd (splitext (name z))) = ''.zip'' \<and>
      new_tmp env (Dir []) v = (tmpdirname, wa) \<and>
      write_local (local_tmp wa) (path_join tmpdirname [name z]) (getbuffer z) = Inr fs \<and>
      extractall env (path_join tmpdirname [name z]) tmpdirname (wa\<lparr>local_tmp := fs\<rparr>) = (Inr (), wb) \<longrightarrow>
      (\<exists>done rest ds.
          walk_files (os_walk tmpdirname wb) = done @ rest \<and> length ds = length done
        \<and> calls (snd (upload_item env bucket bucket_name [] z v))
            = calls v @ map2 (\<lambda>(root, file) d.
                               Upload bucket
                                 (fst (splitext (name z)) @ ''/'' @ relpath (path_join root [file]) tmpdirname) d)
                          done ds
        \<and> (fst (upload_walk env bucket bucket_name [] (name z) tmpdirname (os_walk tmpdirname wb) wb)
              = Inr () \<longrightarrow> rest = [])
        \<and> (\<not> startswith (name z) ''/'' \<and> \<not> doubled_sep (name z) \<longrightarrow>
             (\<forall>(root, file) \<in> set done.
                \<not> startswith
                    (fst (splitext (name z)) @ ''/'' @ relpath (path_join root [file]) tmpdirname) ''/''
                \<and> \<not> doubled_sep
                    (fst (splitext (name z)) @ ''/'' @ relpath (path_join root [file]) tmpdirname)))))"
proof (intro conjI impI)
  assume "lower (snd (splitext (name f))) \<noteq> ''.zip'' \<and> fresh_tmp env w"
  then show "calls (snd (upload_item env bucket bucket_name [] f w))
               = calls w @ [Upload bucket (name f) (getbuffer f)]"
    using plain_item_calls [of f env w bucket bucket_name "[]"]
    by (simp add: path_join_empty_folder)
next
  assume h: "lower (snd (splitext (name z))) = ''.zip'' \<and>
      new_tmp env (Dir []) v = (tmpdirname, wa) \<and>
      write_local (local_tmp wa) (path_join tmpdirname [name z]) (getbuffer z) = Inr fs \<and>
      extractall env (path_join tmpdirname [name z]) tmpdirname (wa\<lparr>local_tmp := fs\<rparr>) = (Inr (), wb)"
  then have is_zip: "lower (snd (splitext (name z))) = ''.zip''"
    by simp
  let ?walk = "upload_walk env bucket bucket_name [] (name z) tmpdirname (os_walk tmpdirname wb) wb"
  from h zip_item_calls [of z env v tmpdirname wa fs wb bucket bucket_name "[]"]
  have c: "calls (snd (upload_item env bucket bucket_name [] z v)) = calls (snd ?walk)" "calls wb = calls v"
    by simp_all
  from upload_walk_calls [of "os_walk tmpdirname wb" env bucket bucket_name "[]" "name z" tmpdirname wb]
  obtain sent rest ds where
    u: "walk_files (os_walk tmpdirname wb) = sent @ rest" "length ds = length sent"
       "calls (snd ?walk)
          = calls wb @ map2 (\<lambda>(root, file) d.
                              Upload bucket
                                (path_join [] [fst (splitext (name z)), relpath (path_join root [file]) tmpdirname]) d)
                         sent ds"
       "fst ?walk = Inr () \<longrightarrow> rest = []"
    by blast
  have k: "\<And>p. path_join [] [fst (splitext (name z)), relpath p tmpdirname]
               = fst (splitext (name z)) @ ''/'' @ relpath p tmpdirname"
    using zip_key_empty_folder [OF is_zip] by blast
  have "calls (snd (upload_item env bucket bucket_name [] z v))
          = calls v @ map2 (\<lambda>(root, file) d.
                             Upload bucket
                               (fst (splitext (name z)) @ ''/'' @ relpath (path_join root [file]) tmpdirname) d)
                        sent ds"
    unfolding c(1) u(3) c(2) k ..
  moreover have "\<not> startswith (name z) ''/'' \<and> \<not> doubled_sep (name z) \<longrightarrow>
             (\<forall>(root, file) \<in> set sent.
                \<not> startswith
                    (fst (splitext (name z)) @ ''/'' @ relpath (path_join root [file]) tmpdirname) ''/''
                \<and> \<not> doubled_sep
                    (fst (splitext (name z)) @ ''/'' @ relpath (path_join root [file]) tmpdirname))"
    using zip_key_empty_folder [OF is_zip] by blast
  ultimately show "\<exists>done rest ds.
          walk_files (os_walk tmpdirname wb) = done @ rest \<and> length ds = length done
        \<and> calls (snd (upload_item env bucket bucket_name [] z v))
            = calls v @ map2 (\<lambda>(root, file) d.
                               Upload bucket
                                 (fst (splitext (name z)) @ ''/'' @ relpath (path_join root [file]) tmpdirname) d)
                          done ds
        \<and> (fst ?walk = Inr () \<longrightarrow> rest = [])
        \<and> (\<not> startswith (name z) ''/'' \<and> \<not> doubled_sep (name z) \<longrightarrow>
             (\<forall>(root, file) \<in> set done.
                \<not> startswith
                    (fst (splitext (name z)) @ ''/'' @ relpath (path_join root [file]) tmpdirname) ''/''
                \<and> \<not> doubled_sep
                    (fst (splitext (name z)) @ ''/'' @ relpath (path_join root [file]) tmpdirname)))"
    using u(1,2,4) by blast
qed

text \<open>
  The theorem at the item \<^verbatim>\<open>f.txt\<close>, uploaded under \<^verbatim>\<open>f.txt\<close>, and at the archive
  \<^verbatim>\<open>a.zip\<close> of two members, whose three uploads go under \<^verbatim>\<open>a/a.zip\<close>, \<^verbatim>\<open>a/x.txt\<close> and
  \<^verbatim>\<open>a/sub/y.txt\<close>.
\<close>

theorem C8_empty_destination_folder_witness:
  "lower (snd (splitext (name f_txt))) \<noteq> ''.zip''
   \<and> fresh_tmp (demo_env no_fault) leftover_world
   \<and> calls (snd (upload_item (demo_env no_fault) ''b'' ''b'' [] f_txt leftover_world))
       = [Upload ''b'' ''f.txt'' ''data'']
   \<and> lower (snd (splitext (name two_zip))) = ''.zip''
   \<and> \<not> startswith (name two_zip) ''/'' \<and> \<not> doubled_sep (name two_zip)
   \<and> fst (upload_walk (demo_env no_fault) ''b'' ''b'' [] (name two_zip) ''/tmp/tmp''
              [(''/tmp/tmp'', [''sub''], [''a.zip'', ''x.txt'']), (''/tmp/tmp/sub'', [], [''y.txt''])]
              (bucket_world\<lparr>local_tmp :=
                 [(''/tmp/tmp'', Dir [(''a.zip'', File ''PK-two''), (''x.txt'', File ''hello''),
                                     (''sub'', Dir [(''y.txt'', File ''world'')])])],
               tmp_count := 1\<rparr>)) = Inr ()
   \<and> (\<exists>d0 d1 d2.
         calls (snd (upload_item (demo_env no_fault) ''b'' ''b'' [] two_zip bucket_world))
           = [Upload ''b'' ''a/a.zip'' d0, Upload ''b'' ''a/x.txt'' d1, Upload ''b'' ''a/sub/y.txt'' d2])
   \<and> \<not> startswith ''a/a.zip'' ''/'' \<and> \<not> doubled_sep ''a/a.zip''
   \<and> \<not> startswith ''a/x.txt'' ''/'' \<and> \<not> doubled_sep ''a/x.txt''
   \<and> \<not> startswith ''a/sub/y.txt'' ''/'' \<and> \<not> doubled_sep ''a/sub/y.txt''"
proof -
  let ?E = "demo_env no_fault"
  let ?T = "''/tmp/tmp''"
  let ?wa = "bucket_world\<lparr>local_tmp := [(?T, Dir [])], tmp_count := 1\<rparr>"
  let ?fs = "[(?T, Dir [(''a.zip'', File ''PK-two'')])]"
  let ?wb = "bucket_world\<lparr>local_tmp :=
               [(?T, Dir [(''a.zip'', File ''PK-two''), (''x.txt'', File ''hello''),
                          (''sub'', Dir [(''y.txt'', File ''world'')])])],
             tmp_count := 1\<rparr>"
  let ?ts = "[(?T, [''sub''], [''a.zip'', ''x.txt'']), (''/tmp/tmp/sub'', [], [''y.txt''])]"
  let ?key = "\<lambda>root file. fst (splitext (name two_zip)) @ ''/'' @ relpath (path_join root [file]) ?T"
  note P = C8_empty_destination_folder [where f = f_txt and env = ?E and w = leftover_world
      and bucket = "''b''" and bucket_name = "''b''", THEN conjunct1]
  note Z = C8_empty_destination_folder [where env = ?E and bucket = "''b''" and bucket_name = "''b''"
      and z = two_zip and v = bucket_world and tmpdirname = ?T and wa = ?wa and fs = ?fs and wb = ?wb,
      THEN conjunct2]
  have p1: "lower (snd (splitext (name f_txt))) \<noteq> ''.zip''"
    by code_simp
  have p2: "fresh_tmp ?E leftover_world"
    by code_simp
  have p3: "calls leftover_world = []" "name f_txt = ''f.txt''" "getbuffer f_txt = ''data''"
    by (simp_all add: leftover_world_def f_txt_def)
  have p: "calls (snd (upload_item ?E ''b'' ''b'' [] f_txt leftover_world)) = [Upload ''b'' ''f.txt'' ''data'']"
    using P p1 p2 by (simp add: p3)
  have z1: "lower (snd (splitext (name two_zip))) = ''.zip''"
    by code_simp
  have z2: "new_tmp ?E (Dir []) bucket_world = (?T, ?wa)"
    by code_simp
  have z3: "write_local (local_tmp ?wa) (path_join ?T [name two_zip]) (getbuffer two_zip) = Inr ?fs"
    by code_simp
  have z4: "extractall ?E (path_join ?T [name two_zip]) ?T (?wa\<lparr>local_tmp := ?fs\<rparr>) = (Inr (), ?wb)"
    by code_simp
  have z5: "os_walk ?T ?wb = ?ts"
    by code_simp
  have z6: "fst (upload_walk ?E ''b'' ''b'' [] (name two_zip) ?T ?ts ?wb) = Inr ()"
    by code_simp
  have z7: "\<not> startswith (name two_zip) ''/''" "\<not> doubled_sep (name two_zip)"
    by code_simp+
  have wf: "walk_files ?ts = [(?T, ''a.zip''), (?T, ''x.txt''), (''/tmp/tmp/sub'', ''y.txt'')]"
    by (simp add: walk_files_def)
  have k: "?key ?T ''a.zip'' = ''a/a.zip''" "?key ?T ''x.txt'' = ''a/x.txt''"
    "?key ''/tmp/tmp/sub'' ''y.txt'' = ''a/sub/y.txt''"
    by code_simp+
  have k': "fst (splitext (name two_zip)) @ CHR ''/'' # relpath (path_join ?T [''a.zip'']) ?T = ''a/a.zip''"
    "fst (splitext (name two_zip)) @ CHR ''/'' # relpath (path_join ?T [''x.txt'']) ?T = ''a/x.txt''"
    "fst (splitext (name two_zip)) @ CHR ''/'' # relpath (path_join ''/tmp/tmp/sub'' [''y.txt'']) ?T
       = ''a/sub/y.txt''"
    using k by simp_all
  have c0: "calls bucket_world = []"
    by (simp add: bucket_world_def)
  from Z z1 z2 z3 z4 obtain sent rest ds where
    u: "walk_files (os_walk ?T ?wb) = sent @ rest" "length ds = length sent"
       "calls (snd (upload_item ?E ''b'' ''b'' [] two_zip bucket_world))
          = calls bucket_world @ map2 (\<lambda>(root, file) d. Upload ''b'' (?key root file) d) sent ds"
       "fst (upload_walk ?E ''b'' ''b'' [] (name two_zip) ?T (os_walk ?T ?wb) ?wb) = Inr () \<longrightarrow> rest = []"
       "\<not> startswith (name two_zip) ''/'' \<and> \<not> doubled_sep (name two_zip) \<longrightarrow>
          (\<forall>(root, file) \<in> set sent. \<not> startswith (?key root file) ''/'' \<and> \<not> doubled_sep (?key root file))"
    by blast
  have r: "rest = []"
    using u(4) z6 unfolding z5 by simp
  then have s: "sent = [(?T, ''a.zip''), (?T, ''x.txt''), (''/tmp/tmp/sub'', ''y.txt'')]"
    using u(1) unfolding z5 wf by simp
  then have "length ds = 3"
    using u(2) by simp
  then obtain d0 d1 d2 where ds: "ds = [d0, d1, d2]"
    by (auto simp add: length_Suc_conv numeral_3_eq_3)
  have z: "calls (snd (upload_item ?E ''b'' ''b'' [] two_zip bucket_world))
             = [Upload ''b'' ''a/a.zip'' d0, Upload ''b'' ''a/x.txt'' d1, Upload ''b'' ''a/sub/y.txt'' d2]"
    unfolding u(3) s ds c0 by (simp add: k')
  have cl: "\<forall>(root, file) \<in> set sent. \<not> startswith (?key root file) ''/'' \<and> \<not> doubled_sep (?key root file)"
    using u(5) z7 by blast
  have clean: "\<not> startswith ''a/a.zip'' ''/'' \<and> \<not> doubled_sep ''a/a.zip''"
    "\<not> startswith ''a/x.txt'' ''/'' \<and> \<not> doubled_sep ''a/x.txt''"
    "\<not> startswith ''a/sub/y.txt'' ''/'' \<and> \<not> doubled_sep ''a/sub/y.txt''"
    using cl unfolding s by (simp_all add: k')
  have e: "\<exists>d0 d1 d2.
         calls (snd (upload_item ?E ''b'' ''b'' [] two_zip bucket_world))
           = [Upload ''b'' ''a/a.zip'' d0, Upload ''b'' ''a/x.txt'' d1, Upload ''b'' ''a/sub/y.txt'' d2]"
    using z by blast
  show ?thesis
    using p1 p2 p z1 z7 z6 e clean by (intro conjI) simp_all
qed

end
